theory Spec2Isabelle
  imports
    Complex_Main
    "HOL-Library.Word"
    "HOL-Library.AList"
    "HOL-Library.Extended_Nat"
    "HOL-Library.Char_ord"
    "HOL-Library.List_Lexorder"
begin

unbundle bit_operations_syntax

section \<open>Numbers and arrays of the host language\<close>

text \<open>
  The pagination code only ever accepts integral page numbers, page sizes and lifetimes
  (\<^verbatim>\<open>Number.isInteger\<close> is checked by \<^verbatim>\<open>validateConfig\<close>), and array lengths are
  integral.  Numbers are therefore modelled as \<^typ>\<open>int\<close>; the check
  \<^verbatim>\<open>Number.isInteger\<close> holds of every value of that type.  Division is the one
  place where the source leaves the integers: \<^verbatim>\<open>Math.ceil(totalItems / pageSize)\<close> is
  modelled as the ceiling of the real quotient.
\<close>

text \<open>\<^verbatim>\<open>a || b\<close> on an optional number: \<^verbatim>\<open>undefined\<close> and \<^verbatim>\<open>0\<close> are falsy.\<close>

definition num_or :: "int option \<Rightarrow> int \<Rightarrow> int" where
  "num_or a b = (case a of None \<Rightarrow> b | Some v \<Rightarrow> if v = 0 then b else v)"

text \<open>Truthiness of an optional boolean flag such as \<^verbatim>\<open>config.enableCache\<close>.\<close>

definition truthy_flag :: "bool option \<Rightarrow> bool" where
  "truthy_flag b = (b = Some True)"

text \<open>
  \<^verbatim>\<open>Array.prototype.slice(start, end)\<close> for integral arguments: a negative index counts
  from the end, both ends are clamped to the array, and an empty range gives the empty array.
\<close>

definition slice :: "'a list \<Rightarrow> int \<Rightarrow> int \<Rightarrow> 'a list" where
  "slice xs start end =
     (let len = int (length xs);
          k = (if start < 0 then max (len + start) 0 else min start len);
          final = (if end < 0 then max (len + end) 0 else min end len);
          count = max (final - k) 0
      in take (nat count) (drop (nat k) xs))"

section \<open>Bounds calculator\<close>

text \<open>
  \<^verbatim>\<open>PaginationUtils\<close> (pagination.utils.ts) and the private methods of the same names in
  \<^verbatim>\<open>CorePaginator\<close> (paginator.core.ts) have the same bodies.
\<close>

definition calculateTotalPages :: "int \<Rightarrow> int \<Rightarrow> int" where
  "calculateTotalPages totalItems pageSize =
     (if totalItems \<le> 0 \<or> pageSize \<le> 0 then 0
      else \<lceil>real_of_int totalItems / real_of_int pageSize\<rceil>)"

definition calculateStartIndex :: "int \<Rightarrow> int \<Rightarrow> int" where
  "calculateStartIndex page pageSize =
     (if page \<le> 0 \<or> pageSize \<le> 0 then 0 else (page - 1) * pageSize)"

definition calculateEndIndex :: "int \<Rightarrow> int \<Rightarrow> int \<Rightarrow> int" where
  "calculateEndIndex page pageSize totalItems =
     (let startIndex = calculateStartIndex page pageSize;
          endIndex = startIndex + pageSize
      in min endIndex totalItems)"

definition isValidPage :: "int \<Rightarrow> int \<Rightarrow> bool" where
  "isValidPage page totalPages = (page \<ge> 1 \<and> page \<le> totalPages)"

text \<open>
  The quantity the specification calls \<open>ceil(totalItems/pageSize)\<close>, stated without
  reference to the reals: the least number of pages of \<open>pageSize\<close> items that hold
  \<open>totalItems\<close> items.
\<close>

definition ceil_quotient :: "int \<Rightarrow> int \<Rightarrow> int" where
  "ceil_quotient a b = - ((- a) div b)"

section \<open>Rendering numbers as text\<close>

text \<open>
  \<^verbatim>\<open>Number.prototype.toString(radix)\<close> on a non-negative integer, for radix 10 and 36
  (digits \<^verbatim>\<open>0-9a-z\<close>), and the text of an integer in a template literal or in JSON:
  the decimal digits, after a minus sign for a negative number.  (The host language writes
  integers of twenty-two digits and more with an exponent; page numbers, page sizes
  and lifetimes of that size are outside this development.)
\<close>

definition digit_char :: "nat \<Rightarrow> char" where
  "digit_char d = ''0123456789abcdefghijklmnopqrstuvwxyz'' ! d"

fun toString_radix :: "nat \<Rightarrow> nat \<Rightarrow> string" where
  "toString_radix radix n =
     (if radix < 2 \<or> n < radix then [digit_char n]
      else toString_radix radix (n div radix) @ [digit_char (n mod radix)])"

definition number_text :: "int \<Rightarrow> string" where
  "number_text n =
     (if n < 0 then CHR ''-'' # toString_radix 10 (nat (- n)) else toString_radix 10 (nat n))"

section \<open>Exceptions\<close>

text \<open>
  The exception classes of pagination.exceptions.ts.  Each constructor keeps the arguments
  the class is built from; \<open>message\<close> and \<open>code\<close> compute what the base class stores.
\<close>

datatype PaginationException =
    InvalidPaginationConfigException string
  | PageNotFoundException int int
  | InvalidPageSizeException int "int option"
  | CacheException string

fun message :: "PaginationException \<Rightarrow> string" where
  "message (InvalidPaginationConfigException m) = m"
| "message (PageNotFoundException page totalPages) =
     ''Page '' @ number_text page @ '' not found. Valid pages are 1 to '' @ number_text totalPages"
| "message (InvalidPageSizeException pageSize maxPageSize) =
     (if num_or maxPageSize 0 \<noteq> 0
      then ''Page size '' @ number_text pageSize @ '' exceeds maximum allowed size of ''
             @ number_text (the maxPageSize)
      else ''Page size '' @ number_text pageSize @ '' must be greater than 0'')"
| "message (CacheException m) = m"

fun code :: "PaginationException \<Rightarrow> string" where
  "code (InvalidPaginationConfigException _) = ''INVALID_PAGINATION_CONFIG''"
| "code (PageNotFoundException _ _) = ''PAGE_NOT_FOUND''"
| "code (InvalidPageSizeException _ _) = ''INVALID_PAGE_SIZE''"
| "code (CacheException _) = ''CACHE_ERROR''"

text \<open>
  What a call of the paginator can throw: one of its own exceptions, or whatever the
  cache backend threw from \<^verbatim>\<open>get\<close> (nothing catches that).
\<close>

datatype 'e thrown = Pagination PaginationException | Backend 'e

section \<open>Configuration and results\<close>

record PaginationConfig =
  pageSize :: int
  page :: int
  maxPageSize :: "int option"
  enableCache :: "bool option"
  cacheTtl :: "int option"

text \<open>
  \<^verbatim>\<open>ExtendedPaginationConfig\<close> has the same optional fields, an optional page and page
  size, and the \<^verbatim>\<open>noPagination\<close> flag; its fields carry the prefix \<open>ext_\<close> here.
\<close>

record ExtendedPaginationConfig =
  ext_page :: "int option"
  ext_pageSize :: "int option"
  ext_maxPageSize :: "int option"
  ext_enableCache :: "bool option"
  ext_cacheTtl :: "int option"
  noPagination :: "bool option"

text \<open>The field \<^verbatim>\<open>pageSize\<close> of \<^verbatim>\<open>PaginationMeta\<close> is \<open>metaPageSize\<close> here.\<close>

record PaginationMeta =
  currentPage :: int
  metaPageSize :: int
  totalItems :: int
  totalPages :: int
  hasPrevious :: bool
  hasNext :: bool
  firstItemIndex :: int
  lastItemIndex :: int

text \<open>
  \<^verbatim>\<open>fromCache\<close> is optional in the interface; every result the paginator builds or
  returns sets it, so it is a plain boolean here.
\<close>

record 'a PaginatedResult =
  data :: "'a list"
  meta :: PaginationMeta
  fromCache :: bool

definition DEFAULT_PAGE_SIZE :: int where
  "DEFAULT_PAGE_SIZE = 10"

definition DEFAULT_MAX_PAGE_SIZE :: int where
  "DEFAULT_MAX_PAGE_SIZE = 100"

definition DEFAULT_CACHE_TTL :: int where
  "DEFAULT_CACHE_TTL = 5 * 60 * 1000"

section \<open>Cache keys\<close>

text \<open>
  The rolling hash of \<^verbatim>\<open>hashArray\<close> and \<^verbatim>\<open>hashObject\<close>.  Every round ends with
  \<^verbatim>\<open>hash & hash\<close>, which reduces the number to a signed 32-bit integer, and the operands of
  the round are small enough for the addition to be exact, so the accumulator is a 32-bit
  word.  A string is the list of its UTF-16 code units, as \<^verbatim>\<open>charCodeAt\<close> reads them.
\<close>

definition hash_round :: "32 word \<Rightarrow> nat \<Rightarrow> 32 word" where
  "hash_round hash char = push_bit 5 hash - hash + of_nat char"

definition hash_text :: "nat list \<Rightarrow> string" where
  "hash_text str = toString_radix 36 (nat \<bar>sint (foldl hash_round 0 str)\<bar>)"

text \<open>
  \<^verbatim>\<open>JSON.stringify\<close> of the data is a function of the host language on values this
  development does not fix; it is the parameter \<open>stringify\<close> of everything that computes a
  key, and gives the code units of the text.
\<close>

definition hashArray :: "('a list \<Rightarrow> nat list) \<Rightarrow> 'a list \<Rightarrow> string" where
  "hashArray stringify data_arr = hash_text (stringify data_arr)"

text \<open>
  The objects that are hashed are flat: a list of properties in insertion order whose values are
  numbers, booleans or \<^verbatim>\<open>undefined\<close>.  \<^verbatim>\<open>JSON.stringify(obj, keys)\<close> with an array of
  keys writes the listed properties in the order of the array and leaves out those whose value
  is \<^verbatim>\<open>undefined\<close>.
\<close>

datatype jsvalue = JNumber int | JBoolean bool | JUndefined

type_synonym jsobject = "(string \<times> jsvalue) list"

definition optional_number :: "int option \<Rightarrow> jsvalue" where
  "optional_number v = (case v of None \<Rightarrow> JUndefined | Some n \<Rightarrow> JNumber n)"

definition optional_boolean :: "bool option \<Rightarrow> jsvalue" where
  "optional_boolean v = (case v of None \<Rightarrow> JUndefined | Some b \<Rightarrow> JBoolean b)"

fun json_value :: "jsvalue \<Rightarrow> string" where
  "json_value (JNumber n) = number_text n"
| "json_value (JBoolean b) = (if b then ''true'' else ''false'')"
| "json_value JUndefined = []"

definition json_member :: "jsobject \<Rightarrow> string \<Rightarrow> string list" where
  "json_member obj k =
     (case map_of obj k of
        None \<Rightarrow> []
      | Some JUndefined \<Rightarrow> []
      | Some v \<Rightarrow> [[CHR 0x22] @ k @ [CHR 0x22] @ '':'' @ json_value v])"

fun join_comma :: "string list \<Rightarrow> string" where
  "join_comma [] = []"
| "join_comma [x] = x"
| "join_comma (x # y # ys) = x @ '','' @ join_comma (y # ys)"

definition stringify_object :: "jsobject \<Rightarrow> string list \<Rightarrow> string" where
  "stringify_object obj keys = ''{'' @ join_comma (concat (map (json_member obj) keys)) @ ''}''"

definition hashObject :: "jsobject \<Rightarrow> string" where
  "hashObject obj =
     hash_text (map of_char (stringify_object obj (sort (map fst obj))))"

definition generateCacheKey :: "('a list \<Rightarrow> nat list) \<Rightarrow> 'a list \<Rightarrow> jsobject \<Rightarrow> string" where
  "generateCacheKey stringify data_arr config_obj =
     ''pagination:'' @ hashArray stringify data_arr @ '':'' @ hashObject config_obj"

text \<open>
  The object \<^verbatim>\<open>normalizeConfig\<close> builds, which \<^verbatim>\<open>CorePaginator.paginateNormal\<close> passes
  to \<^verbatim>\<open>generateCacheKey\<close> whole, with its properties in the order of the literal.
\<close>

definition config_object :: "PaginationConfig \<Rightarrow> jsobject" where
  "config_object config =
     [(''page'', JNumber (page config)),
      (''pageSize'', JNumber (pageSize config)),
      (''maxPageSize'', optional_number (maxPageSize config)),
      (''enableCache'', optional_boolean (enableCache config)),
      (''cacheTtl'', optional_number (cacheTtl config))]"

text \<open>\<^verbatim>\<open>PaginatorService.generateCacheKey\<close> hashes the page and the page size only.\<close>

definition service_generateCacheKey ::
  "('a list \<Rightarrow> nat list) \<Rightarrow> 'a list \<Rightarrow> PaginationConfig \<Rightarrow> string" where
  "service_generateCacheKey stringify data_arr config =
     generateCacheKey stringify data_arr
       [(''page'', JNumber (page config)), (''pageSize'', JNumber (pageSize config))]"

text \<open>
  \<^verbatim>\<open>JSON.stringify\<close> on an array of integers, for the examples: the numbers in decimal,
  separated by commas, in brackets.
\<close>

definition json_numbers :: "int list \<Rightarrow> nat list" where
  "json_numbers xs = map of_char (''['' @ join_comma (map number_text xs) @ '']'')"

section \<open>The cache service interface\<close>

text \<open>
  \<^verbatim>\<open>CacheService\<close> (cache.interface.ts).  A backend owns a state of type \<open>'st\<close>; each
  asynchronous method, awaited by its caller, is a function from the state before the call
  to the outcome and the state after it, and the outcome is \<open>Inl\<close> of the value thrown
  when the promise is rejected.
\<close>

record ('st, 'v, 'e) CacheService =
  cache_get :: "string \<Rightarrow> 'st \<Rightarrow> ('e + 'v option) \<times> 'st"
  cache_set :: "string \<Rightarrow> 'v \<Rightarrow> int \<Rightarrow> 'st \<Rightarrow> ('e + unit) \<times> 'st"
  cache_delete :: "string \<Rightarrow> 'st \<Rightarrow> ('e + unit) \<times> 'st"
  cache_clear :: "'st \<Rightarrow> ('e + unit) \<times> 'st"
  cache_has :: "string \<Rightarrow> 'st \<Rightarrow> ('e + bool) \<times> 'st"

section \<open>The paginator\<close>

text \<open>
  \<^verbatim>\<open>validateConfig\<close>, the same in \<^verbatim>\<open>PaginatorService\<close> and \<^verbatim>\<open>CorePaginator\<close>:
  \<open>None\<close> when it returns, the exception when it throws.  The first test, for a missing
  configuration, cannot fail on a record.
\<close>

definition validateConfig :: "PaginationConfig \<Rightarrow> PaginationException option" where
  "validateConfig config =
     (if page config < 1
      then Some (InvalidPaginationConfigException ''Page number must be a positive integer'')
      else if pageSize config < 1
      then Some (InvalidPageSizeException (pageSize config) None)
      else let maxSize = num_or (maxPageSize config) DEFAULT_MAX_PAGE_SIZE in
        if pageSize config > maxSize
        then Some (InvalidPageSizeException (pageSize config) (Some maxSize))
        else if cacheTtl config \<noteq> None \<and> the (cacheTtl config) < 0
        then Some (InvalidPaginationConfigException ''Cache TTL must be a non-negative integer'')
        else None)"

text \<open>
  The statements between the cache lookup and the cache write, which are the same in
  \<^verbatim>\<open>PaginatorService.paginate\<close> and \<^verbatim>\<open>CorePaginator.paginateNormal\<close>: count the pages,
  reject a page that does not exist, slice, and build the result.
\<close>

definition computePage :: "'a list \<Rightarrow> PaginationConfig \<Rightarrow> PaginationException + 'a PaginatedResult" where
  "computePage data_arr config =
     (let pg = page config;
          ps = pageSize config;
          total = int (length data_arr);
          pages = calculateTotalPages total ps
      in if pages > 0 \<and> \<not> isValidPage pg pages
         then Inl (PageNotFoundException pg pages)
         else
           let startIndex = calculateStartIndex pg ps;
               endIndex = calculateEndIndex pg ps total;
               pageData = slice data_arr startIndex endIndex
           in Inr \<lparr>data = pageData,
                   meta = \<lparr>currentPage = pg,
                            metaPageSize = ps,
                            totalItems = total,
                            totalPages = pages,
                            hasPrevious = (pg > 1),
                            hasNext = (pg < pages),
                            firstItemIndex = (if total > 0 then startIndex + 1 else 0),
                            lastItemIndex = (if total > 0 then endIndex else 0)\<rparr>,
                   fromCache = False\<rparr>)"

text \<open>
  The body shared by \<^verbatim>\<open>PaginatorService.paginate\<close> and
  \<^verbatim>\<open>CorePaginator.paginateNormal\<close>, which differ in the cache key only: validate, look
  the key up when caching is enabled and a cache service was injected, return a hit with
  \<^verbatim>\<open>fromCache\<close> set, otherwise compute the page and store it.  What \<^verbatim>\<open>get\<close> throws
  is not caught; what \<^verbatim>\<open>set\<close> throws is caught and logged, and the result is returned.
\<close>

definition paginate_body ::
  "string \<Rightarrow> ('st, 'a PaginatedResult, 'e) CacheService option \<Rightarrow> 'a list \<Rightarrow> PaginationConfig
     \<Rightarrow> 'st \<Rightarrow> ('e thrown + 'a PaginatedResult) \<times> 'st" where
  "paginate_body cacheKey cacheService data_arr config st =
     (case validateConfig config of
        Some ex \<Rightarrow> (Inl (Pagination ex), st)
      | None \<Rightarrow>
         (case (if truthy_flag (enableCache config) then cacheService else None) of
            None \<Rightarrow>
              (case computePage data_arr config of
                 Inl ex \<Rightarrow> (Inl (Pagination ex), st)
               | Inr result \<Rightarrow> (Inr result, st))
          | Some service \<Rightarrow>
              (case cache_get service cacheKey st of
                 (Inl e, st1) \<Rightarrow> (Inl (Backend e), st1)
               | (Inr (Some cachedResult), st1) \<Rightarrow> (Inr (cachedResult\<lparr>fromCache := True\<rparr>), st1)
               | (Inr None, st1) \<Rightarrow>
                   (case computePage data_arr config of
                      Inl ex \<Rightarrow> (Inl (Pagination ex), st1)
                    | Inr result \<Rightarrow>
                        (let ttl = num_or (cacheTtl config) DEFAULT_CACHE_TTL
                         in (Inr result, snd (cache_set service cacheKey result ttl st1)))))))"

definition paginateNormal ::
  "('a list \<Rightarrow> nat list) \<Rightarrow> ('st, 'a PaginatedResult, 'e) CacheService option \<Rightarrow> 'a list
     \<Rightarrow> PaginationConfig \<Rightarrow> 'st \<Rightarrow> ('e thrown + 'a PaginatedResult) \<times> 'st" where
  "paginateNormal stringify cacheService data_arr config st =
     paginate_body (generateCacheKey stringify data_arr (config_object config))
       cacheService data_arr config st"

definition service_paginate ::
  "('a list \<Rightarrow> nat list) \<Rightarrow> ('st, 'a PaginatedResult, 'e) CacheService option \<Rightarrow> 'a list
     \<Rightarrow> PaginationConfig \<Rightarrow> 'st \<Rightarrow> ('e thrown + 'a PaginatedResult) \<times> 'st" where
  "service_paginate stringify cacheService data_arr config st =
     paginate_body (service_generateCacheKey stringify data_arr config)
       cacheService data_arr config st"

subsection \<open>The core paginator\<close>

definition normalizeConfig :: "ExtendedPaginationConfig \<Rightarrow> PaginationConfig" where
  "normalizeConfig config =
     \<lparr>pageSize = num_or (ext_pageSize config) DEFAULT_PAGE_SIZE,
      page = num_or (ext_page config) 1,
      maxPageSize = ext_maxPageSize config,
      enableCache = ext_enableCache config,
      cacheTtl = ext_cacheTtl config\<rparr>"

definition getAllDataSync :: "'a list \<Rightarrow> 'a PaginatedResult" where
  "getAllDataSync data_arr =
     \<lparr>data = data_arr,
      meta = \<lparr>currentPage = 1,
               metaPageSize = int (length data_arr),
               totalItems = int (length data_arr),
               totalPages = 1,
               hasPrevious = False,
               hasNext = False,
               firstItemIndex = (if int (length data_arr) > 0 then 1 else 0),
               lastItemIndex = int (length data_arr)\<rparr>,
      fromCache = False\<rparr>"

text \<open>\<^verbatim>\<open>returnAllData\<close> builds the result of \<^verbatim>\<open>getAllDataSync\<close> between lookup and write.\<close>

definition returnAllData ::
  "('a list \<Rightarrow> nat list) \<Rightarrow> ('st, 'a PaginatedResult, 'e) CacheService option \<Rightarrow> 'a list
     \<Rightarrow> ExtendedPaginationConfig \<Rightarrow> 'st \<Rightarrow> ('e thrown + 'a PaginatedResult) \<times> 'st" where
  "returnAllData stringify cacheService data_arr config st =
     (case (if truthy_flag (ext_enableCache config) then cacheService else None) of
        None \<Rightarrow> (Inr (getAllDataSync data_arr), st)
      | Some service \<Rightarrow>
          (let cacheKey = generateCacheKey stringify data_arr [(''noPagination'', JBoolean True)]
           in case cache_get service cacheKey st of
                (Inl e, st1) \<Rightarrow> (Inl (Backend e), st1)
              | (Inr (Some cachedResult), st1) \<Rightarrow> (Inr (cachedResult\<lparr>fromCache := True\<rparr>), st1)
              | (Inr None, st1) \<Rightarrow>
                  (let result = getAllDataSync data_arr;
                       ttl = num_or (ext_cacheTtl config) DEFAULT_CACHE_TTL
                   in (Inr result, snd (cache_set service cacheKey result ttl st1)))))"

text \<open>\<^verbatim>\<open>CorePaginator.paginate\<close>.\<close>

definition core_paginate ::
  "('a list \<Rightarrow> nat list) \<Rightarrow> ('st, 'a PaginatedResult, 'e) CacheService option \<Rightarrow> 'a list
     \<Rightarrow> ExtendedPaginationConfig \<Rightarrow> 'st \<Rightarrow> ('e thrown + 'a PaginatedResult) \<times> 'st" where
  "core_paginate stringify cacheService data_arr config st =
     (if truthy_flag (noPagination config)
      then returnAllData stringify cacheService data_arr config st
      else
        let normalizedConfig = normalizeConfig config
        in if ext_pageSize config \<noteq> None \<and> the (ext_pageSize config) \<le> 0
           then (Inl (Pagination (InvalidPageSizeException (the (ext_pageSize config)) None)), st)
           else if ext_page config \<noteq> None \<and> the (ext_page config) \<le> 0
           then (Inl (Pagination
                   (InvalidPaginationConfigException ''Page number must be a positive integer'')), st)
           else paginateNormal stringify cacheService data_arr normalizedConfig st)"

subsection \<open>The paginator service\<close>

text \<open>
  \<^verbatim>\<open>createConfig({ page, pageSize })\<close>, the only way \<^verbatim>\<open>simplePaginate\<close> and
  \<^verbatim>\<open>getAllPages\<close> call it: the defaults with the page and the page size overridden.
\<close>

definition createConfig :: "int \<Rightarrow> int \<Rightarrow> PaginationConfig" where
  "createConfig pg ps =
     \<lparr>pageSize = ps,
      page = pg,
      maxPageSize = Some DEFAULT_MAX_PAGE_SIZE,
      enableCache = Some False,
      cacheTtl = Some DEFAULT_CACHE_TTL\<rparr>"

text \<open>
  The loop of \<^verbatim>\<open>getAllPages\<close>: \<open>pg\<close> is the loop variable, \<open>pages\<close> the array built so
  far.  An exception of \<^verbatim>\<open>paginate\<close> leaves the loop and the method.
\<close>

function getAllPages_loop ::
  "('a list \<Rightarrow> nat list) \<Rightarrow> ('st, 'a PaginatedResult, 'e) CacheService option \<Rightarrow> 'a list
     \<Rightarrow> int \<Rightarrow> int \<Rightarrow> int \<Rightarrow> 'a PaginatedResult list \<Rightarrow> 'st
     \<Rightarrow> ('e thrown + 'a PaginatedResult list) \<times> 'st" where
  "getAllPages_loop stringify cacheService data_arr ps pageCount pg pages st =
     (if pg \<le> pageCount
      then (case service_paginate stringify cacheService data_arr (createConfig pg ps) st of
              (Inl e, st1) \<Rightarrow> (Inl e, st1)
            | (Inr result, st1) \<Rightarrow>
                getAllPages_loop stringify cacheService data_arr ps pageCount (pg + 1)
                  (pages @ [result]) st1)
      else (Inr pages, st))"
  by pat_completeness auto
termination
  by (relation "measure (\<lambda>(stringify, cacheService, data_arr, ps, pageCount, pg, pages, st).
                  nat (pageCount + 1 - pg))") auto

declare getAllPages_loop.simps [simp del]

definition getAllPages ::
  "('a list \<Rightarrow> nat list) \<Rightarrow> ('st, 'a PaginatedResult, 'e) CacheService option \<Rightarrow> 'a list
     \<Rightarrow> int \<Rightarrow> 'st \<Rightarrow> ('e thrown + 'a PaginatedResult list) \<times> 'st" where
  "getAllPages stringify cacheService data_arr ps st =
     getAllPages_loop stringify cacheService data_arr ps
       (calculateTotalPages (int (length data_arr)) ps) 1 [] st"

section \<open>The in-memory cache\<close>

text \<open>
  \<^verbatim>\<open>MemoryCacheService\<close> (memory-cache.service.ts).  A \<^verbatim>\<open>Map\<close> is the list of its
  entries in insertion order: \<^verbatim>\<open>Map.set\<close> replaces the value of a key already there, in
  place, and appends a new key (\<^const>\<open>AList.update\<close>); \<^verbatim>\<open>Map.delete\<close> removes the key
  (\<^const>\<open>AList.delete\<close>); \<^verbatim>\<open>Map.size\<close> is the length.  The clock \<^verbatim>\<open>Date.now()\<close> is
  the argument \<open>now\<close> of the methods that read it.  The field \<^verbatim>\<open>value\<close> of an entry is
  \<open>entryValue\<close> here.
\<close>

record 'v CacheEntry =
  entryValue :: 'v
  expiresAt :: int
  createdAt :: int

record 'v MemoryCache =
  cache :: "(string \<times> 'v CacheEntry) list"
  accessOrder :: "(string \<times> nat) list"
  accessCounter :: nat

definition new_cache :: "'v MemoryCache" where
  "new_cache = \<lparr>cache = [], accessOrder = [], accessCounter = 0\<rparr>"

definition mc_delete :: "string \<Rightarrow> 'v MemoryCache \<Rightarrow> 'v MemoryCache" where
  "mc_delete key s =
     s\<lparr>cache := AList.delete key (cache s), accessOrder := AList.delete key (accessOrder s)\<rparr>"

definition mc_clear :: "'v MemoryCache \<Rightarrow> 'v MemoryCache" where
  "mc_clear s = s\<lparr>cache := [], accessOrder := [], accessCounter := 0\<rparr>"

definition mc_get :: "int \<Rightarrow> string \<Rightarrow> 'v MemoryCache \<Rightarrow> 'v option \<times> 'v MemoryCache" where
  "mc_get now key s =
     (case map_of (cache s) key of
        None \<Rightarrow> (None, s)
      | Some entry \<Rightarrow>
          if now > expiresAt entry then (None, mc_delete key s)
          else (Some (entryValue entry),
                s\<lparr>accessOrder := AList.update key (accessCounter s + 1) (accessOrder s),
                  accessCounter := accessCounter s + 1\<rparr>))"

definition mc_has :: "int \<Rightarrow> string \<Rightarrow> 'v MemoryCache \<Rightarrow> bool \<times> 'v MemoryCache" where
  "mc_has now key s =
     (case map_of (cache s) key of
        None \<Rightarrow> (False, s)
      | Some entry \<Rightarrow>
          if now > expiresAt entry then (False, mc_delete key s)
          else (True, s))"

text \<open>
  The scan of \<^verbatim>\<open>evictLeastRecentlyUsed\<close> starts from \<^verbatim>\<open>lruKey = undefined\<close> and
  \<^verbatim>\<open>lruAccess = Infinity\<close>; the final test \<^verbatim>\<open>if (lruKey)\<close> is the truthiness of a
  string, which the empty string does not have.
\<close>

definition lru_step :: "string option \<times> enat \<Rightarrow> string \<times> nat \<Rightarrow> string option \<times> enat" where
  "lru_step acc entry =
     (case acc of (lruKey, lruAccess) \<Rightarrow>
        case entry of (key, accessTime) \<Rightarrow>
          if enat accessTime < lruAccess then (Some key, enat accessTime) else (lruKey, lruAccess))"

definition lru_scan :: "(string \<times> nat) list \<Rightarrow> string option \<times> enat" where
  "lru_scan entries = foldl lru_step (None, \<infinity>) entries"

definition evictLeastRecentlyUsed :: "'v MemoryCache \<Rightarrow> 'v MemoryCache" where
  "evictLeastRecentlyUsed s =
     (if length (accessOrder s) = 0 then s
      else case fst (lru_scan (accessOrder s)) of
             None \<Rightarrow> s
           | Some lruKey \<Rightarrow> if lruKey \<noteq> [] then mc_delete lruKey s else s)"

text \<open>
  \<^verbatim>\<open>set\<close>; \<open>maxSize\<close> is \<^verbatim>\<open>config.maxSize\<close>, an optional number whose truthiness is
  tested first.
\<close>

definition mc_set ::
  "int option \<Rightarrow> int \<Rightarrow> string \<Rightarrow> 'v \<Rightarrow> int \<Rightarrow> 'v MemoryCache \<Rightarrow> 'v MemoryCache" where
  "mc_set maxSize now key v ttl s =
     (let entry = \<lparr>entryValue = v, expiresAt = now + ttl, createdAt = now\<rparr>;
          s1 = (if num_or maxSize 0 \<noteq> 0 \<and> int (length (cache s)) \<ge> the maxSize
                   \<and> map_of (cache s) key = None
                then evictLeastRecentlyUsed s else s)
      in s1\<lparr>cache := AList.update key entry (cache s1),
            accessOrder := AList.update key (accessCounter s1 + 1) (accessOrder s1),
            accessCounter := accessCounter s1 + 1\<rparr>)"

text \<open>
  \<^verbatim>\<open>SimpleCache\<close> (simple-cache.ts) has the same fields and the same \<^verbatim>\<open>get\<close>,
  \<^verbatim>\<open>delete\<close>, \<^verbatim>\<open>clear\<close>, \<^verbatim>\<open>has\<close> and \<^verbatim>\<open>evictLeastRecentlyUsed\<close>; its
  \<^verbatim>\<open>set\<close> compares with a \<^verbatim>\<open>maxSize\<close> that is always a number.
\<close>

definition sc_set :: "int \<Rightarrow> int \<Rightarrow> string \<Rightarrow> 'v \<Rightarrow> int \<Rightarrow> 'v MemoryCache \<Rightarrow> 'v MemoryCache" where
  "sc_set maxSize now key v ttl s =
     (let entry = \<lparr>entryValue = v, expiresAt = now + ttl, createdAt = now\<rparr>;
          s1 = (if int (length (cache s)) \<ge> maxSize \<and> map_of (cache s) key = None
                then evictLeastRecentlyUsed s else s)
      in s1\<lparr>cache := AList.update key entry (cache s1),
            accessOrder := AList.update key (accessCounter s1 + 1) (accessOrder s1),
            accessCounter := accessCounter s1 + 1\<rparr>)"

definition cleanupExpired :: "int \<Rightarrow> 'v MemoryCache \<Rightarrow> nat \<times> 'v MemoryCache" where
  "cleanupExpired now s =
     (let expiredKeys = map fst (filter (\<lambda>(key, entry). now > expiresAt entry) (cache s))
      in (length expiredKeys, foldl (\<lambda>s' key. mc_delete key s') s expiredKeys))"

text \<open>
  The in-memory cache as a cache service, with the clock standing at \<open>now\<close>; none of its
  methods throws.
\<close>

definition memoryCacheService :: "int option \<Rightarrow> int \<Rightarrow> ('v MemoryCache, 'v, 'e) CacheService" where
  "memoryCacheService maxSize now =
     \<lparr>cache_get = (\<lambda>key s. case mc_get now key s of (r, s') \<Rightarrow> (Inr r, s')),
      cache_set = (\<lambda>key v ttl s. (Inr (), mc_set maxSize now key v ttl s)),
      cache_delete = (\<lambda>key s. (Inr (), mc_delete key s)),
      cache_clear = (\<lambda>s. (Inr (), mc_clear s)),
      cache_has = (\<lambda>key s. case mc_has now key s of (r, s') \<Rightarrow> (Inr r, s'))\<rparr>"

text \<open>
  The in-memory cache after its store has become read-only, for the examples: lookups work
  as before, every write throws.
\<close>

definition read_only_memory_cache :: "int \<Rightarrow> ('v MemoryCache, 'v, string) CacheService" where
  "read_only_memory_cache now =
     \<lparr>cache_get = (\<lambda>key s. case mc_get now key s of (r, s') \<Rightarrow> (Inr r, s')),
      cache_set = (\<lambda>key v ttl s. (Inl ''read-only'', s)),
      cache_delete = (\<lambda>key s. (Inl ''read-only'', s)),
      cache_clear = (\<lambda>s. (Inl ''read-only'', s)),
      cache_has = (\<lambda>key s. case mc_has now key s of (r, s') \<Rightarrow> (Inr r, s'))\<rparr>"

text \<open>
  A finite sequence of calls on one cache: each call with the reading of the clock at which
  it runs.
\<close>

datatype 'v cache_call =
    Get string
  | Set string 'v int
  | Delete string
  | Clear
  | Has string
  | CleanupExpired

fun call :: "int option \<Rightarrow> int \<times> 'v cache_call \<Rightarrow> 'v MemoryCache \<Rightarrow> 'v MemoryCache" where
  "call maxSize (now, Get key) s = snd (mc_get now key s)"
| "call maxSize (now, Set key v ttl) s = mc_set maxSize now key v ttl s"
| "call maxSize (now, Delete key) s = mc_delete key s"
| "call maxSize (now, Clear) s = mc_clear s"
| "call maxSize (now, Has key) s = snd (mc_has now key s)"
| "call maxSize (now, CleanupExpired) s = snd (cleanupExpired now s)"

definition calls :: "int option \<Rightarrow> (int \<times> 'v cache_call) list \<Rightarrow> 'v MemoryCache \<Rightarrow> 'v MemoryCache" where
  "calls maxSize cs s = foldl (\<lambda>s' c. call maxSize c s') s cs"

text \<open>
  The two maps of a cache describe the same keys, each once.
\<close>

definition keys_agree :: "'v MemoryCache \<Rightarrow> bool" where
  "keys_agree s \<longleftrightarrow>
     distinct (map fst (cache s)) \<and> distinct (map fst (accessOrder s))
     \<and> set (map fst (cache s)) = set (map fst (accessOrder s))"

text \<open>
  No recency record is ahead of the access counter.
\<close>

definition counters_bounded :: "'v MemoryCache \<Rightarrow> bool" where
  "counters_bounded s \<longleftrightarrow> (\<forall>e \<in> set (accessOrder s). snd e \<le> accessCounter s)"

text \<open>
  The recency records of keys that were touched one after the other, the first with the
  counter \<open>n\<close>.
\<close>

fun numbered :: "nat \<Rightarrow> 'a list \<Rightarrow> ('a \<times> nat) list" where
  "numbered n [] = []"
| "numbered n (x # xs) = (x, n) # numbered (Suc n) xs"

section \<open>Unfolding the definitions on examples\<close>

lemmas example_eval =
  validateConfig_def computePage_def calculateTotalPages_def calculateStartIndex_def
  calculateEndIndex_def isValidPage_def slice_def truthy_flag_def num_or_def
  DEFAULT_MAX_PAGE_SIZE_def DEFAULT_CACHE_TTL_def DEFAULT_PAGE_SIZE_def Let_def

lemmas key_eval =
  generateCacheKey_def service_generateCacheKey_def hashArray_def hashObject_def hash_text_def
  hash_round_def stringify_object_def json_member_def json_numbers_def config_object_def
  optional_number_def optional_boolean_def number_text_def digit_char_def

lemmas memory_eval =
  memoryCacheService_def mc_get_def mc_set_def mc_delete_def new_cache_def
  evictLeastRecentlyUsed_def lru_scan_def lru_step_def

section \<open>Properties of the bounds calculator\<close>

lemma calculateTotalPages_div:
  "calculateTotalPages n ps =
     (if n \<le> 0 \<or> ps \<le> 0 then 0 else ceil_quotient n ps)"
  by (simp add: calculateTotalPages_def ceil_quotient_def ceiling_divide_eq_div)

lemma ceil_quotient_least:
  assumes "0 < b"
  shows "a \<le> ceil_quotient a b * b" and "(ceil_quotient a b - 1) * b < a"
proof -
  have m: "0 \<le> (- a) mod b" "(- a) mod b < b"
    using assms by simp_all
  have e: "((- a) div b) * b = - a - (- a) mod b"
    by (simp add: minus_mod_eq_div_mult)
  have "ceil_quotient a b * b = - (((- a) div b) * b)"
    by (simp add: ceil_quotient_def)
  then have "ceil_quotient a b * b = a + (- a) mod b"
    using e by simp
  then show "a \<le> ceil_quotient a b * b" and "(ceil_quotient a b - 1) * b < a"
    using m by (simp_all add: algebra_simps)
qed



section \<open>Pagination without the cache\<close>

lemma paginate_body_uncached:
  assumes "validateConfig config = None"
    and "\<not> truthy_flag (enableCache config) \<or> cacheService = None"
  shows "paginate_body cacheKey cacheService data_arr config st =
           (case computePage data_arr config of
              Inl ex \<Rightarrow> (Inl (Pagination ex), st)
            | Inr result \<Rightarrow> (Inr result, st))"
  using assms by (auto simp: paginate_body_def)

lemma computePage_empty:
  assumes "1 \<le> page config" and "1 \<le> pageSize config"
  shows "computePage [] config =
           Inr \<lparr>data = [],
                meta = \<lparr>currentPage = page config, metaPageSize = pageSize config,
                         totalItems = 0, totalPages = 0,
                         hasPrevious = (page config > 1), hasNext = False,
                         firstItemIndex = 0, lastItemIndex = 0\<rparr>,
                fromCache = False\<rparr>"
  using assms by (simp add: computePage_def calculateTotalPages_def slice_def Let_def)

lemma validateConfig_None_iff:
  "validateConfig config = None \<longleftrightarrow>
     1 \<le> page config \<and> 1 \<le> pageSize config
     \<and> pageSize config \<le> num_or (maxPageSize config) DEFAULT_MAX_PAGE_SIZE
     \<and> (\<forall>t. cacheTtl config = Some t \<longrightarrow> 0 \<le> t)"
  by (auto simp: validateConfig_def Let_def)

text \<open>
  Claim C3.  For a configuration that passes validation, with caching disabled (the flag
  is not set or no cache service was injected), \<open>paginate\<close> throws the page-not-found
  exception, carrying the requested page and the number of pages, exactly when there is at
  least one page and the requested page is not among \<open>1 .. totalPages\<close>; it throws nothing
  else; \<^verbatim>\<open>CorePaginator.paginateNormal\<close> and \<^verbatim>\<open>PaginatorService.paginate\<close> agree; and on
  an empty collection the result is the empty page with \<open>totalItems = 0\<close>, \<open>totalPages = 0\<close>,
  \<open>firstItemIndex = 0\<close> and \<open>lastItemIndex = 0\<close>.
\<close>

theorem page_not_found_iff:
  assumes valid: "validateConfig config = None"
    and uncached: "\<not> truthy_flag (enableCache config) \<or> cacheService = None"
  shows "let pages = calculateTotalPages (int (length data_arr)) (pageSize config);
             notFound = Inl (Pagination (PageNotFoundException (page config) pages));
             outcome = fst (paginateNormal stringify cacheService data_arr config st)
         in (outcome = notFound \<longleftrightarrow> pages > 0 \<and> (page config < 1 \<or> page config > pages))
            \<and> ((\<exists>e. outcome = Inl e) \<longrightarrow> outcome = notFound)
            \<and> outcome = fst (service_paginate stringify cacheService data_arr config st)
            \<and> (data_arr = [] \<longrightarrow>
                  outcome = Inr \<lparr>data = [],
                                 meta = \<lparr>currentPage = page config, metaPageSize = pageSize config,
                                          totalItems = 0, totalPages = 0,
                                          hasPrevious = (page config > 1), hasNext = False,
                                          firstItemIndex = 0, lastItemIndex = 0\<rparr>,
                                 fromCache = False\<rparr>)"
proof -
  have pos: "1 \<le> page config" "1 \<le> pageSize config"
    using valid by (simp_all add: validateConfig_None_iff)
  have core: "fst (paginateNormal stringify cacheService data_arr config st) =
                (case computePage data_arr config of
                   Inl ex \<Rightarrow> Inl (Pagination ex) | Inr result \<Rightarrow> Inr result)"
    by (simp add: paginateNormal_def paginate_body_uncached [OF valid uncached] split: sum.split)
  have svc: "fst (service_paginate stringify cacheService data_arr config st) =
                (case computePage data_arr config of
                   Inl ex \<Rightarrow> Inl (Pagination ex) | Inr result \<Rightarrow> Inr result)"
    by (simp add: service_paginate_def paginate_body_uncached [OF valid uncached] split: sum.split)
  have empty: "data_arr = [] \<Longrightarrow> computePage data_arr config = 
           Inr \<lparr>data = [],
                meta = \<lparr>currentPage = page config, metaPageSize = pageSize config,
                         totalItems = 0, totalPages = 0,
                         hasPrevious = (page config > 1), hasNext = False,
                         firstItemIndex = 0, lastItemIndex = 0\<rparr>,
                fromCache = False\<rparr>"
    using computePage_empty [OF pos] by simp
  show ?thesis
    unfolding Let_def core svc
    using empty by (auto simp: computePage_def isValidPage_def Let_def)
qed




theorem page_not_found_iff_witness:
  "validateConfig \<lparr>pageSize = 3, page = 4, maxPageSize = None, enableCache = None, cacheTtl = None\<rparr> = None
   \<and> fst (paginateNormal (\<lambda>_. []) (None :: (unit, nat PaginatedResult, unit) CacheService option)
             [1, 2, 3, 4, 5, 6, 7]
             \<lparr>pageSize = 3, page = 4, maxPageSize = None, enableCache = None, cacheTtl = None\<rparr> ())
       = Inl (Pagination (PageNotFoundException 4 3))
   \<and> message (PageNotFoundException 4 3) = ''Page 4 not found. Valid pages are 1 to 3''
   \<and> fst (paginateNormal (\<lambda>_. []) (None :: (unit, nat PaginatedResult, unit) CacheService option)
             []
             \<lparr>pageSize = 3, page = 4, maxPageSize = None, enableCache = None, cacheTtl = None\<rparr> ())
       = Inr \<lparr>data = [],
              meta = \<lparr>currentPage = 4, metaPageSize = 3, totalItems = 0, totalPages = 0,
                       hasPrevious = True, hasNext = False,
                       firstItemIndex = 0, lastItemIndex = 0\<rparr>,
              fromCache = False\<rparr>"
proof -
  let ?config = "\<lparr>pageSize = 3, page = 4, maxPageSize = None, enableCache = None, cacheTtl = None\<rparr>"
  let ?none = "None :: (unit, nat PaginatedResult, unit) CacheService option"
  have valid: "validateConfig ?config = None"
    by (simp add: validateConfig_def num_or_def DEFAULT_MAX_PAGE_SIZE_def)
  have uncached: "\<not> truthy_flag (enableCache ?config) \<or> ?none = None"
    by simp
  have pages: "calculateTotalPages (int (length [1, 2, 3, 4, 5, 6, 7 :: nat])) (pageSize ?config) = 3"
    by (simp add: calculateTotalPages_def)
  note at_seven = page_not_found_iff [OF valid uncached, of "[1, 2, 3, 4, 5, 6, 7 :: nat]" "\<lambda>_. []" "()",
      unfolded Let_def pages]
  note at_empty = page_not_found_iff [OF valid uncached, of "[] :: nat list" "\<lambda>_. []" "()",
      unfolded Let_def]
  have "(fst (paginateNormal (\<lambda>_. []) ?none [1, 2, 3, 4, 5, 6, 7 :: nat] ?config ())
                = Inl (Pagination (PageNotFoundException (page ?config) 3)))
        = (0 < (3::int) \<and> (page ?config < 1 \<or> 3 < page ?config))"
    using at_seven by (rule conjunct1)
  then have full: "fst (paginateNormal (\<lambda>_. []) ?none [1, 2, 3, 4, 5, 6, 7 :: nat] ?config ())
                = Inl (Pagination (PageNotFoundException 4 3))"
    by simp
  have "([] :: nat list) = [] \<longrightarrow> fst (paginateNormal (\<lambda>_. []) ?none ([] :: nat list) ?config ())
       = Inr \<lparr>data = [],
              meta = \<lparr>currentPage = page ?config, metaPageSize = pageSize ?config, totalItems = 0, totalPages = 0,
                       hasPrevious = (page ?config > 1), hasNext = False,
                       firstItemIndex = 0, lastItemIndex = 0\<rparr>,
              fromCache = False\<rparr>"
    using at_empty [THEN conjunct2, THEN conjunct2, THEN conjunct2] .
  then have empty: "fst (paginateNormal (\<lambda>_. []) ?none ([] :: nat list) ?config ())
       = Inr \<lparr>data = [],
              meta = \<lparr>currentPage = 4, metaPageSize = 3, totalItems = 0, totalPages = 0,
                       hasPrevious = True, hasNext = False,
                       firstItemIndex = 0, lastItemIndex = 0\<rparr>,
              fromCache = False\<rparr>"
    by simp
  have msg: "message (PageNotFoundException 4 3) = ''Page 4 not found. Valid pages are 1 to 3''"
    by (simp add: number_text_def digit_char_def)
  show ?thesis by (intro conjI valid full msg empty)
qed


text \<open>
  Claim C10.  On the empty collection, for every page number \<open>p \<ge> 1\<close> and every page size
  between 1 and the default maximum, both public \<open>paginate\<close> methods, called with a
  configuration that holds the page and the page size only, return the empty page: no data,
  no items, no pages, the requested page echoed as \<open>currentPage\<close>, both item indices 0,
  no next page, and a previous page exactly when \<open>p > 1\<close>.  The cache is not touched.
\<close>

theorem empty_collection_any_page:
  assumes "1 \<le> p" and "1 \<le> ps" and "ps \<le> 100"
  shows "core_paginate stringify cacheService []
           \<lparr>ext_page = Some p, ext_pageSize = Some ps, ext_maxPageSize = None,
            ext_enableCache = None, ext_cacheTtl = None, noPagination = None\<rparr> st
         = (Inr \<lparr>data = [],
                 meta = \<lparr>currentPage = p, metaPageSize = ps, totalItems = 0, totalPages = 0,
                          hasPrevious = (p > 1), hasNext = False,
                          firstItemIndex = 0, lastItemIndex = 0\<rparr>,
                 fromCache = False\<rparr>, st)
       \<and> service_paginate stringify cacheService []
           \<lparr>pageSize = ps, page = p, maxPageSize = None, enableCache = None, cacheTtl = None\<rparr> st
         = (Inr \<lparr>data = [],
                 meta = \<lparr>currentPage = p, metaPageSize = ps, totalItems = 0, totalPages = 0,
                          hasPrevious = (p > 1), hasNext = False,
                          firstItemIndex = 0, lastItemIndex = 0\<rparr>,
                 fromCache = False\<rparr>, st)"
proof -
  let ?config = "\<lparr>pageSize = ps, page = p, maxPageSize = None, enableCache = None, cacheTtl = None\<rparr>"
  have valid: "validateConfig ?config = None"
    using assms by (simp add: validateConfig_None_iff num_or_def DEFAULT_MAX_PAGE_SIZE_def)
  have uncached: "\<not> truthy_flag (enableCache ?config) \<or> cacheService = None"
    by (simp add: truthy_flag_def)
  have page: "computePage [] ?config =
           Inr \<lparr>data = [],
                 meta = \<lparr>currentPage = p, metaPageSize = ps, totalItems = 0, totalPages = 0,
                          hasPrevious = (p > 1), hasNext = False,
                          firstItemIndex = 0, lastItemIndex = 0\<rparr>,
                 fromCache = False\<rparr>"
    using computePage_empty [of ?config] assms by simp
  have norm: "normalizeConfig \<lparr>ext_page = Some p, ext_pageSize = Some ps, ext_maxPageSize = None,
            ext_enableCache = None, ext_cacheTtl = None, noPagination = None\<rparr> = ?config"
    using assms by (simp add: normalizeConfig_def num_or_def)
  have svc: "service_paginate stringify cacheService [] ?config st
         = (Inr \<lparr>data = [],
                 meta = \<lparr>currentPage = p, metaPageSize = ps, totalItems = 0, totalPages = 0,
                          hasPrevious = (p > 1), hasNext = False,
                          firstItemIndex = 0, lastItemIndex = 0\<rparr>,
                 fromCache = False\<rparr>, st)"
    by (simp add: service_paginate_def paginate_body_uncached [OF valid uncached] page)
  have core: "core_paginate stringify cacheService []
           \<lparr>ext_page = Some p, ext_pageSize = Some ps, ext_maxPageSize = None,
            ext_enableCache = None, ext_cacheTtl = None, noPagination = None\<rparr> st
         = (Inr \<lparr>data = [],
                 meta = \<lparr>currentPage = p, metaPageSize = ps, totalItems = 0, totalPages = 0,
                          hasPrevious = (p > 1), hasNext = False,
                          firstItemIndex = 0, lastItemIndex = 0\<rparr>,
                 fromCache = False\<rparr>, st)"
    using assms
    by (simp add: core_paginate_def truthy_flag_def norm Let_def paginateNormal_def
          paginate_body_uncached [OF valid uncached] page)
  from core svc show ?thesis by (rule conjI)
qed

theorem empty_collection_any_page_witness:
  "(1::int) \<le> 999 \<and> (1::int) \<le> 10 \<and> (10::int) \<le> 100
   \<and> core_paginate (\<lambda>_. []) (None :: (unit, nat PaginatedResult, unit) CacheService option) []
           \<lparr>ext_page = Some 999, ext_pageSize = Some 10, ext_maxPageSize = None,
            ext_enableCache = None, ext_cacheTtl = None, noPagination = None\<rparr> ()
         = (Inr \<lparr>data = [],
                 meta = \<lparr>currentPage = 999, metaPageSize = 10, totalItems = 0, totalPages = 0,
                          hasPrevious = True, hasNext = False,
                          firstItemIndex = 0, lastItemIndex = 0\<rparr>,
                 fromCache = False\<rparr>, ())"
  using empty_collection_any_page [THEN conjunct1, of 999 10 "\<lambda>_. []"
          "None :: (unit, nat PaginatedResult, unit) CacheService option" "()"]
  by simp

section \<open>Enumerating the pages\<close>

lemma slice_window:
  assumes "0 \<le> s" and "0 \<le> c"
  shows "slice xs s (min (s + c) (int (length xs))) = take (nat c) (drop (nat s) xs)"
proof (cases "s \<le> int (length xs)")
  case True
  let ?e = "min (s + c) (int (length xs))"
  have k: "min s (int (length xs)) = s"
    using True by simp
  have f: "min ?e (int (length xs)) = ?e" and nn: "\<not> ?e < 0" and cnt: "max (?e - s) 0 = ?e - s"
    using assms True by simp_all
  have "nat (?e - s) = min (nat c) (length xs - nat s)"
    using assms True by linarith
  moreover have "take (min (nat c) (length xs - nat s)) (drop (nat s) xs) = take (nat c) (drop (nat s) xs)"
    by (simp add: min_def)
  moreover have "slice xs s ?e = take (nat (?e - s)) (drop (nat s) xs)"
    using assms(1) by (simp add: slice_def Let_def k f nn cnt)
  ultimately show ?thesis
    by simp
next
  case False
  then show ?thesis
    using assms by (simp add: slice_def Let_def min_def max_def)
qed

lemma computePage_data:
  assumes "1 \<le> page config" and "1 \<le> pageSize config"
    and "page config \<le> calculateTotalPages (int (length xs)) (pageSize config)"
  shows "\<exists>r. computePage xs config = Inr r
           \<and> data r = take (nat (pageSize config)) (drop (nat ((page config - 1) * pageSize config)) xs)
           \<and> currentPage (meta r) = page config
           \<and> \<not> fromCache r"
proof -
  have s: "calculateStartIndex (page config) (pageSize config) = (page config - 1) * pageSize config"
    using assms by (simp add: calculateStartIndex_def)
  have e: "calculateEndIndex (page config) (pageSize config) (int (length xs))
             = min ((page config - 1) * pageSize config + pageSize config) (int (length xs))"
    by (simp add: calculateEndIndex_def Let_def s)
  have w: "slice xs ((page config - 1) * pageSize config)
             (min ((page config - 1) * pageSize config + pageSize config) (int (length xs)))
           = take (nat (pageSize config)) (drop (nat ((page config - 1) * pageSize config)) xs)"
    using assms by (intro slice_window) simp_all
  show ?thesis
    using assms by (simp add: computePage_def Let_def isValidPage_def s e w)
qed

lemma computePage_createConfig:
  assumes "1 \<le> pg" and "1 \<le> ps" and "pg \<le> calculateTotalPages (int (length xs)) ps"
  shows "\<exists>r. computePage xs (createConfig pg ps) = Inr r
           \<and> data r = take (nat ps) (drop (nat ((pg - 1) * ps)) xs)
           \<and> currentPage (meta r) = pg"
  using computePage_data [of "createConfig pg ps" xs] assms by (auto simp: createConfig_def)

lemma validateConfig_createConfig:
  assumes "1 \<le> pg" and "1 \<le> ps" and "ps \<le> DEFAULT_MAX_PAGE_SIZE"
  shows "validateConfig (createConfig pg ps) = None"
  using assms
  by (simp add: validateConfig_None_iff createConfig_def num_or_def DEFAULT_MAX_PAGE_SIZE_def
        DEFAULT_CACHE_TTL_def)

lemma service_paginate_createConfig:
  assumes "1 \<le> pg" and "1 \<le> ps" and "ps \<le> DEFAULT_MAX_PAGE_SIZE"
    and "pg \<le> calculateTotalPages (int (length xs)) ps"
  shows "service_paginate stringify cacheService xs (createConfig pg ps) st
           = (Inr (projr (computePage xs (createConfig pg ps))), st)"
proof -
  have uncached: "\<not> truthy_flag (enableCache (createConfig pg ps)) \<or> cacheService = None"
    by (simp add: createConfig_def truthy_flag_def)
  obtain r where "computePage xs (createConfig pg ps) = Inr r"
    using computePage_data [of "createConfig pg ps" xs] assms by (auto simp: createConfig_def)
  then show ?thesis
    by (simp add: service_paginate_def
          paginate_body_uncached [OF validateConfig_createConfig [OF assms(1-3)] uncached])
qed

lemma getAllPages_loop_uncached:
  assumes "1 \<le> ps" and "ps \<le> DEFAULT_MAX_PAGE_SIZE" and "1 \<le> pg"
    and "pageCount \<le> calculateTotalPages (int (length xs)) ps"
  shows "getAllPages_loop stringify cacheService xs ps pageCount pg acc st
           = (Inr (acc @ map (\<lambda>q. projr (computePage xs (createConfig q ps))) [pg..pageCount]), st)"
  using assms(3)
proof (induction "nat (pageCount + 1 - pg)" arbitrary: pg acc)
  case 0
  then have "\<not> pg \<le> pageCount" by simp
  then show ?case
    by (subst getAllPages_loop.simps) simp
next
  case (Suc n)
  then have le: "pg \<le> pageCount" by linarith
  have "pg \<le> calculateTotalPages (int (length xs)) ps"
    using le assms(4) by linarith
  then have step: "service_paginate stringify cacheService xs (createConfig pg ps) st
                = (Inr (projr (computePage xs (createConfig pg ps))), st)"
    by (rule service_paginate_createConfig [OF Suc.prems assms(1,2)])
  have n: "n = nat (pageCount + 1 - (pg + 1))"
    using Suc.hyps(2) by linarith
  have rest: "getAllPages_loop stringify cacheService xs ps pageCount (pg + 1)
                (acc @ [projr (computePage xs (createConfig pg ps))]) st
              = (Inr ((acc @ [projr (computePage xs (createConfig pg ps))])
                   @ map (\<lambda>q. projr (computePage xs (createConfig q ps))) [pg + 1..pageCount]), st)"
    using Suc.hyps(1) [OF n] Suc.prems by simp
  have "[pg..pageCount] = pg # [pg + 1..pageCount]"
    using le by (simp add: upto_rec1)
  then show ?case
    using le by (subst getAllPages_loop.simps) (simp add: step rest)
qed

lemma concat_windows:
  "concat (map (\<lambda>q. take k (drop (nat ((q - 1) * int k)) xs)) [1..int n]) = take (n * k) xs"
proof (induction n)
  case 0
  show ?case by simp
next
  case (Suc n)
  have "[1..int (Suc n)] = [1..int n] @ [int n + 1]"
    using upto_rec2 [of 1 "int (Suc n)"] by (simp add: add.commute)
  moreover have "nat (int n * int k) = n * k"
    by (simp add: nat_mult_distrib)
  ultimately show ?case
    using Suc.IH by (simp add: take_add [symmetric] add.commute)
qed


lemma bounds_calculator_equations_aux:
  "0 < n \<Longrightarrow> 0 < ps \<Longrightarrow>
     n \<le> calculateTotalPages n ps * ps \<and> (calculateTotalPages n ps - 1) * ps < n"
  using ceil_quotient_least [of ps n] by (simp add: calculateTotalPages_div)

text \<open>
  Claim C1.  For every array and every page size between 1 and the maximum page size of
  the configuration \<^verbatim>\<open>getAllPages\<close> builds (the default, 100), \<^verbatim>\<open>getAllPages\<close> returns
  without an exception and leaves the cache alone; it returns one result per page, for the
  pages \<open>1 .. totalPages\<close> in this order, each the result \<^verbatim>\<open>paginate\<close> gives for that page;
  the \<open>data\<close> of the results, concatenated in page order, is the array itself; and the
  last page holds \<open>totalItems - (totalPages - 1) * pageSize\<close> items.
\<close>

theorem getAllPages_partition:
  assumes "1 \<le> ps" and "ps \<le> DEFAULT_MAX_PAGE_SIZE"
  shows "\<exists>pages. getAllPages stringify cacheService xs ps st = (Inr pages, st)
           \<and> concat (map data pages) = xs
           \<and> int (length pages) = calculateTotalPages (int (length xs)) ps
           \<and> map (\<lambda>r. currentPage (meta r)) pages = [1..calculateTotalPages (int (length xs)) ps]
           \<and> (\<forall>r \<in> set pages.
                 service_paginate stringify cacheService xs (createConfig (currentPage (meta r)) ps) st
                   = (Inr r, st))
           \<and> (pages \<noteq> [] \<longrightarrow>
                 int (length (data (last pages)))
                   = int (length xs) - (calculateTotalPages (int (length xs)) ps - 1) * ps)"
proof -
  define count where "count = calculateTotalPages (int (length xs)) ps"
  define result where "result = (\<lambda>q. projr (computePage xs (createConfig q ps)))"
  define pages where "pages = map result [1..count]"
  have ps_pos: "0 < ps" using assms(1) by simp
  have count_nonneg: "0 \<le> count"
  proof (cases "0 < int (length xs)")
    case True
    then have le: "int (length xs) \<le> count * ps"
      using bounds_calculator_equations_aux ps_pos unfolding count_def by simp
    show ?thesis
    proof (rule ccontr)
      assume "\<not> 0 \<le> count"
      then have "count * ps \<le> 0"
        using ps_pos by (simp add: mult_le_0_iff)
      with le True show False by simp
    qed
  next
    case False
    then show ?thesis by (simp add: count_def calculateTotalPages_def)
  qed
  have cover: "int (length xs) \<le> count * ps"
  proof (cases "0 < int (length xs)")
    case True
    then show ?thesis
      using bounds_calculator_equations_aux ps_pos unfolding count_def by simp
  next
    case False
    then show ?thesis by (simp add: count_def calculateTotalPages_def)
  qed
  have tight: "0 < count \<Longrightarrow> (count - 1) * ps < int (length xs)"
  proof -
    assume "0 < count"
    then have "0 < int (length xs)"
      by (auto simp: count_def calculateTotalPages_def split: if_splits)
    then show ?thesis
      using bounds_calculator_equations_aux ps_pos unfolding count_def by simp
  qed
  have each: "computePage xs (createConfig q ps) = Inr (result q)
               \<and> data (result q) = take (nat ps) (drop (nat ((q - 1) * ps)) xs)
               \<and> currentPage (meta (result q)) = q"
    if q1: "1 \<le> q" and q2: "q \<le> count" for q
  proof -
    obtain r where "computePage xs (createConfig q ps) = Inr r"
      and "data r = take (nat ps) (drop (nat ((q - 1) * ps)) xs)"
      and "currentPage (meta r) = q"
      using computePage_createConfig [OF q1 assms(1), of xs] q2
      unfolding count_def by blast
    then show ?thesis by (simp add: result_def)
  qed
  have run: "getAllPages stringify cacheService xs ps st = (Inr pages, st)"
    using getAllPages_loop_uncached [OF assms, of 1 count xs stringify cacheService "[]" st]
    by (simp add: getAllPages_def pages_def result_def count_def)
  have "map data pages = map (\<lambda>q. take (nat ps) (drop (nat ((q - 1) * int (nat ps))) xs)) [1..int (nat count)]"
    using each ps_pos count_nonneg by (simp add: pages_def)
  then have cat: "concat (map data pages) = xs"
    using concat_windows [of "nat ps" xs "nat count"] cover ps_pos count_nonneg
    by (simp add: nat_mult_distrib [symmetric] nat_le_iff)
  have len: "int (length pages) = count"
    using count_nonneg by (simp add: pages_def)
  have nums: "map (\<lambda>r. currentPage (meta r)) pages = [1..count]"
    unfolding pages_def map_map by (rule map_idI) (simp add: each)
  have again: "\<forall>r \<in> set pages.
                 service_paginate stringify cacheService xs (createConfig (currentPage (meta r)) ps) st
                   = (Inr r, st)"
  proof
    fix r assume "r \<in> set pages"
    then obtain q where q: "1 \<le> q" "q \<le> count" and r: "r = result q"
      by (auto simp: pages_def)
    have "service_paginate stringify cacheService xs (createConfig q ps) st = (Inr (result q), st)"
      using service_paginate_createConfig [OF q(1) assms, of xs stringify cacheService st] q(2)
      by (simp add: count_def result_def)
    then show "service_paginate stringify cacheService xs (createConfig (currentPage (meta r)) ps) st
                   = (Inr r, st)"
      using each [OF q] r by simp
  qed
  have lastp: "int (length (data (last pages))) = int (length xs) - (count - 1) * ps"
    if "pages \<noteq> []"
  proof -
    from that have c: "1 \<le> count"
      by (auto simp: pages_def split: if_splits)
    then have "[1..count] = [1..count - 1] @ [count]"
      by (simp add: upto_rec2)
    then have "last pages = result count"
      by (simp add: pages_def)
    then have "data (last pages) = take (nat ps) (drop (nat ((count - 1) * ps)) xs)"
      using each [of count] c by simp
    then have l: "length (data (last pages)) = min (length xs - nat ((count - 1) * ps)) (nat ps)"
      by simp
    have m0: "0 \<le> (count - 1) * ps"
      using c ps_pos by simp
    have "int (length xs) - (count - 1) * ps \<le> ps"
      using cover by (simp add: algebra_simps)
    moreover have "(count - 1) * ps < int (length xs)"
      using tight c by simp
    ultimately show ?thesis
      using l m0 ps_pos by linarith
  qed
  from run cat len nums again lastp show ?thesis
    unfolding count_def by blast
qed

theorem getAllPages_partition_witness:
  "(1::int) \<le> 3 \<and> 3 \<le> DEFAULT_MAX_PAGE_SIZE
   \<and> (\<exists>pages. getAllPages (\<lambda>_. []) (None :: (unit, nat PaginatedResult, unit) CacheService option)
                   [1, 2, 3, 4, 5, 6, 7] 3 () = (Inr pages, ())
          \<and> concat (map data pages) = [1, 2, 3, 4, 5, 6, 7]
          \<and> int (length pages) = 3
          \<and> map (\<lambda>r. currentPage (meta r)) pages = [1, 2, 3]
          \<and> int (length (data (last pages))) = 1)"
proof -
  have small: "(1::int) \<le> 3" and allowed: "3 \<le> DEFAULT_MAX_PAGE_SIZE"
    by (simp_all add: DEFAULT_MAX_PAGE_SIZE_def)
  have count: "calculateTotalPages (int (length [1, 2, 3, 4, 5, 6, 7 :: nat])) 3 = 3"
    by (simp add: calculateTotalPages_def)
  have upto: "[1..3::int] = [1, 2, 3]"
    by (simp add: upto_rec1)
  obtain pages where all:
     "getAllPages (\<lambda>_. []) (None :: (unit, nat PaginatedResult, unit) CacheService option)
                   [1, 2, 3, 4, 5, 6, 7 :: nat] 3 () = (Inr pages, ())
      \<and> concat (map data pages) = [1, 2, 3, 4, 5, 6, 7]
      \<and> int (length pages) = 3
      \<and> map (\<lambda>r. currentPage (meta r)) pages = [1, 2, 3]
      \<and> (\<forall>r \<in> set pages.
            service_paginate (\<lambda>_. []) (None :: (unit, nat PaginatedResult, unit) CacheService option)
              [1, 2, 3, 4, 5, 6, 7 :: nat] (createConfig (currentPage (meta r)) 3) () = (Inr r, ()))
      \<and> (pages \<noteq> [] \<longrightarrow> int (length (data (last pages)))
             = int (length [1, 2, 3, 4, 5, 6, 7 :: nat]) - (3 - 1) * 3)"
    using getAllPages_partition [OF small allowed, of "\<lambda>_. []"
            "None :: (unit, nat PaginatedResult, unit) CacheService option"
            "[1, 2, 3, 4, 5, 6, 7 :: nat]" "()"]
    unfolding count upto by (rule exE)
  note run = all [THEN conjunct1]
    and cat = all [THEN conjunct2, THEN conjunct1]
    and len = all [THEN conjunct2, THEN conjunct2, THEN conjunct1]
    and nums = all [THEN conjunct2, THEN conjunct2, THEN conjunct2, THEN conjunct1]
    and lastp = all [THEN conjunct2, THEN conjunct2, THEN conjunct2, THEN conjunct2, THEN conjunct2]
  from len have "pages \<noteq> []" by auto
  with lastp have "int (length (data (last pages))) = 1" by simp
  with run cat len nums have "getAllPages (\<lambda>_. []) (None :: (unit, nat PaginatedResult, unit) CacheService option)
                   [1, 2, 3, 4, 5, 6, 7 :: nat] 3 () = (Inr pages, ())
          \<and> concat (map data pages) = [1, 2, 3, 4, 5, 6, 7]
          \<and> int (length pages) = 3
          \<and> map (\<lambda>r. currentPage (meta r)) pages = [1, 2, 3]
          \<and> int (length (data (last pages))) = 1"
    by (intro conjI)
  then have "\<exists>pages. getAllPages (\<lambda>_. []) (None :: (unit, nat PaginatedResult, unit) CacheService option)
                   [1, 2, 3, 4, 5, 6, 7 :: nat] 3 () = (Inr pages, ())
          \<and> concat (map data pages) = [1, 2, 3, 4, 5, 6, 7]
          \<and> int (length pages) = 3
          \<and> map (\<lambda>r. currentPage (meta r)) pages = [1, 2, 3]
          \<and> int (length (data (last pages))) = 1"
    by (rule exI)
  with small allowed show ?thesis
    by (intro conjI)
qed

section \<open>Expiry in the in-memory cache\<close>

lemma set_update_subset: "set (AList.update k v al) \<subseteq> insert (k, v) (set al)"
  by (induction al) auto

lemma set_delete_subset: "set (AList.delete k al) \<subseteq> set al"
  by (auto simp: AList.delete_eq)

lemma counters_bounded_new: "counters_bounded new_cache"
  by (simp add: counters_bounded_def new_cache_def)

lemma counters_bounded_clear: "counters_bounded (mc_clear s)"
  by (simp add: counters_bounded_def mc_clear_def)

lemma counters_bounded_delete: "counters_bounded s \<Longrightarrow> counters_bounded (mc_delete key s)"
  using set_delete_subset [of key "accessOrder s"]
  by (auto simp: counters_bounded_def mc_delete_def)

lemma counters_bounded_touch:
  assumes "counters_bounded s"
    and "accessOrder s' = AList.update key (accessCounter s + 1) (accessOrder s)"
    and "accessCounter s' = accessCounter s + 1"
  shows "counters_bounded s'"
  using assms set_update_subset [of key "accessCounter s + 1" "accessOrder s"]
  by (fastforce simp: counters_bounded_def)

lemma counters_bounded_get: "counters_bounded s \<Longrightarrow> counters_bounded (snd (mc_get now key s))"
  by (auto simp: mc_get_def counters_bounded_delete split: option.split
        intro: counters_bounded_touch [of s _ key])

lemma counters_bounded_has: "counters_bounded s \<Longrightarrow> counters_bounded (snd (mc_has now key s))"
  by (simp add: mc_has_def counters_bounded_delete split: option.split)

lemma counters_bounded_evict: "counters_bounded s \<Longrightarrow> counters_bounded (evictLeastRecentlyUsed s)"
  by (simp add: evictLeastRecentlyUsed_def counters_bounded_delete split: option.split)

lemma counters_bounded_set: "counters_bounded s \<Longrightarrow> counters_bounded (mc_set maxSize now key v ttl s)"
  unfolding mc_set_def Let_def
  by (rule counters_bounded_touch [of "if num_or maxSize 0 \<noteq> 0 \<and> int (length (cache s)) \<ge> the maxSize
                   \<and> map_of (cache s) key = None
                then evictLeastRecentlyUsed s else s" _ key])
     (simp_all add: counters_bounded_evict)

lemma counters_bounded_deletes:
  "counters_bounded s \<Longrightarrow> counters_bounded (foldl (\<lambda>s' key. mc_delete key s') s ks)"
  by (induction ks arbitrary: s) (simp_all add: counters_bounded_delete)

lemma counters_bounded_cleanup: "counters_bounded s \<Longrightarrow> counters_bounded (snd (cleanupExpired now s))"
  by (simp add: cleanupExpired_def Let_def counters_bounded_deletes)

lemma counters_bounded_call: "counters_bounded s \<Longrightarrow> counters_bounded (call maxSize c s)"
proof -
  assume a: "counters_bounded s"
  obtain now op where c: "c = (now, op)" by (cases c)
  show ?thesis
    unfolding c using a
    by (cases op)
       (simp_all add: counters_bounded_get counters_bounded_set counters_bounded_delete
          counters_bounded_clear counters_bounded_has counters_bounded_cleanup)
qed

lemma counters_bounded_calls: "counters_bounded (calls maxSize cs new_cache)"
proof -
  have "counters_bounded s \<Longrightarrow> counters_bounded (calls maxSize cs s)" for s :: "'a MemoryCache"
    unfolding calls_def by (induction cs arbitrary: s) (simp_all add: counters_bounded_call)
  then show ?thesis
    using counters_bounded_new by blast
qed

lemma mc_set_entry:
  "map_of (cache (mc_set maxSize t0 key v ttl s0)) key
     = Some \<lparr>entryValue = v, expiresAt = t0 + ttl, createdAt = t0\<rparr>"
  by (simp add: mc_set_def Let_def AList.update_conv')

lemma mc_get_live:
  assumes "map_of (cache s) key = Some entry" and "now \<le> expiresAt entry"
  shows "mc_get now key s =
           (Some (entryValue entry),
            s\<lparr>accessOrder := AList.update key (accessCounter s + 1) (accessOrder s),
              accessCounter := accessCounter s + 1\<rparr>)"
  using assms by (simp add: mc_get_def)

lemma mc_get_expired:
  assumes "map_of (cache s) key = Some entry" and "expiresAt entry < now"
  shows "mc_get now key s = (None, mc_delete key s)"
  using assms by (simp add: mc_get_def)

lemma mc_has_deleted: "mc_has t key (mc_delete key s) = (False, mc_delete key s)"
  by (simp add: mc_has_def mc_delete_def AList.delete_conv')

text \<open>
  Claim C6.  For a key whose entry in the cache has expiry time \<open>expiresAt\<close>: a \<^verbatim>\<open>get\<close> at a
  time not after \<open>expiresAt\<close> returns the stored value, leaves the entries alone and gives
  the key the next value of the access counter, changing the recency of no other key, so
  that the key is the most recent one when no record was ahead of the counter (which is so
  in every state the calls of the cache reach from the empty one); a
  \<^verbatim>\<open>get\<close> strictly after \<open>expiresAt\<close> returns nothing and removes the entry and its recency
  record, so that \<^verbatim>\<open>has\<close> on the key, at whatever time, then answers false.  After
  \<^verbatim>\<open>set(key, v, ttl)\<close> at time \<open>t0\<close> the key has the entry with value \<open>v\<close> and expiry time
  \<open>t0 + ttl\<close>.
\<close>

theorem ttl_expiry_on_access:
  assumes "map_of (cache s) key = Some entry"
  shows "(now \<le> expiresAt entry \<longrightarrow>
            fst (mc_get now key s) = Some (entryValue entry)
            \<and> cache (snd (mc_get now key s)) = cache s
            \<and> accessCounter (snd (mc_get now key s)) = accessCounter s + 1
            \<and> map_of (accessOrder (snd (mc_get now key s))) key = Some (accessCounter s + 1)
            \<and> (\<forall>k. k \<noteq> key \<longrightarrow>
                  map_of (accessOrder (snd (mc_get now key s))) k = map_of (accessOrder s) k)
            \<and> (counters_bounded s \<longrightarrow>
                  (\<forall>k c. k \<noteq> key \<and> map_of (accessOrder (snd (mc_get now key s))) k = Some c
                     \<longrightarrow> c < accessCounter s + 1)))
       \<and> (expiresAt entry < now \<longrightarrow>
            fst (mc_get now key s) = None
            \<and> map_of (cache (snd (mc_get now key s))) key = None
            \<and> map_of (accessOrder (snd (mc_get now key s))) key = None
            \<and> (\<forall>t. fst (mc_has t key (snd (mc_get now key s))) = False))
       \<and> map_of (cache (mc_set maxSize t0 key v ttl s0)) key
            = Some \<lparr>entryValue = v, expiresAt = t0 + ttl, createdAt = t0\<rparr>"
proof (intro conjI impI)
  assume live: "now \<le> expiresAt entry"
  note g = mc_get_live [OF assms live]
  show "fst (mc_get now key s) = Some (entryValue entry)"
    and "cache (snd (mc_get now key s)) = cache s"
    and "accessCounter (snd (mc_get now key s)) = accessCounter s + 1"
    and "map_of (accessOrder (snd (mc_get now key s))) key = Some (accessCounter s + 1)"
    and others: "\<forall>k. k \<noteq> key \<longrightarrow> map_of (accessOrder (snd (mc_get now key s))) k = map_of (accessOrder s) k"
    by (simp_all add: g AList.update_conv')
  assume bounded: "counters_bounded s"
  show "\<forall>k c. k \<noteq> key \<and> map_of (accessOrder (snd (mc_get now key s))) k = Some c
                     \<longrightarrow> c < accessCounter s + 1"
  proof (intro allI impI)
    fix k c
    assume "k \<noteq> key \<and> map_of (accessOrder (snd (mc_get now key s))) k = Some c"
    then have "map_of (accessOrder s) k = Some c"
      using others by auto
    then have "(k, c) \<in> set (accessOrder s)"
      by (rule map_of_SomeD)
    then have "c \<le> accessCounter s"
      using bounded by (auto simp: counters_bounded_def)
    then show "c < accessCounter s + 1" by simp
  qed
next
  assume dead: "expiresAt entry < now"
  note g = mc_get_expired [OF assms dead]
  show "fst (mc_get now key s) = None"
    and "map_of (cache (snd (mc_get now key s))) key = None"
    and "map_of (accessOrder (snd (mc_get now key s))) key = None"
    and "\<forall>t. fst (mc_has t key (snd (mc_get now key s))) = False"
    by (simp_all add: g mc_has_deleted) (simp_all add: mc_delete_def AList.delete_conv')
next
  show "map_of (cache (mc_set maxSize t0 key v ttl s0)) key
            = Some \<lparr>entryValue = v, expiresAt = t0 + ttl, createdAt = t0\<rparr>"
    by (rule mc_set_entry)
qed

theorem ttl_expiry_on_access_witness:
  "map_of (cache (mc_set (Some 3) 1000 ''key1'' ''value1'' 100
                    (mc_set (Some 3) 1000 ''key2'' ''value2'' 5000 new_cache))) ''key1''
     = Some \<lparr>entryValue = ''value1'', expiresAt = 1100, createdAt = 1000\<rparr>
   \<and> counters_bounded (mc_set (Some 3) 1000 ''key1'' ''value1'' 100
                         (mc_set (Some 3) 1000 ''key2'' ''value2'' 5000 new_cache))
   \<and> (1100::int) \<le> 1100
   \<and> fst (mc_get 1100 ''key1'' (mc_set (Some 3) 1000 ''key1'' ''value1'' 100
                                   (mc_set (Some 3) 1000 ''key2'' ''value2'' 5000 new_cache)))
       = Some ''value1''
   \<and> map_of (accessOrder (snd (mc_get 1100 ''key1''
                (mc_set (Some 3) 1000 ''key1'' ''value1'' 100
                   (mc_set (Some 3) 1000 ''key2'' ''value2'' 5000 new_cache))))) ''key1'' = Some 3
   \<and> map_of (accessOrder (snd (mc_get 1100 ''key1''
                (mc_set (Some 3) 1000 ''key1'' ''value1'' 100
                   (mc_set (Some 3) 1000 ''key2'' ''value2'' 5000 new_cache))))) ''key2'' = Some 1
   \<and> (1100::int) < 1101
   \<and> fst (mc_get 1101 ''key1'' (mc_set (Some 3) 1000 ''key1'' ''value1'' 100
                                   (mc_set (Some 3) 1000 ''key2'' ''value2'' 5000 new_cache))) = None
   \<and> fst (mc_has 1000 ''key1''
            (snd (mc_get 1101 ''key1'' (mc_set (Some 3) 1000 ''key1'' ''value1'' 100
                                          (mc_set (Some 3) 1000 ''key2'' ''value2'' 5000 new_cache)))))
       = False"
proof -
  let ?s = "mc_set (Some 3) 1000 ''key1'' ''value1'' 100
              (mc_set (Some 3) 1000 ''key2'' ''value2'' 5000 new_cache)"
  let ?entry = "\<lparr>entryValue = ''value1'', expiresAt = 1100 :: int, createdAt = 1000 :: int\<rparr>"
  have s: "?s = \<lparr>cache = [(''key2'', \<lparr>entryValue = ''value2'', expiresAt = 6000, createdAt = 1000\<rparr>),
                          (''key1'', ?entry)],
                 accessOrder = [(''key2'', 1), (''key1'', 2)],
                 accessCounter = 2\<rparr>"
    by (simp add: memory_eval num_or_def)
  have stored: "map_of (cache ?s) ''key1'' = Some ?entry"
    by (simp add: s)
  have bounded: "counters_bounded ?s"
    by (simp add: s counters_bounded_def)
  have counter: "accessCounter ?s = 2" and before: "map_of (accessOrder ?s) ''key2'' = Some 1"
    by (simp_all add: s)
  note live = ttl_expiry_on_access [OF stored, of 1100, THEN conjunct1, rule_format]
  note dead = ttl_expiry_on_access [OF stored, of 1101, THEN conjunct2, THEN conjunct1, rule_format]
  have a: "fst (mc_get 1100 ''key1'' ?s) = Some ''value1''"
    and b: "map_of (accessOrder (snd (mc_get 1100 ''key1'' ?s))) ''key1'' = Some 3"
    and c: "map_of (accessOrder (snd (mc_get 1100 ''key1'' ?s))) ''key2'' = Some 1"
    using live counter before by simp_all
  have most_recent: "\<forall>k c. k \<noteq> ''key1'' \<and> map_of (accessOrder (snd (mc_get 1100 ''key1'' ?s))) k = Some c
                 \<longrightarrow> c < accessCounter ?s + 1"
    using live bounded by simp
  have d: "fst (mc_get 1101 ''key1'' ?s) = None"
    and e: "fst (mc_has 1000 ''key1'' (snd (mc_get 1101 ''key1'' ?s))) = False"
    using dead by simp_all
  show ?thesis
    by (intro conjI stored bounded a b c d e) simp_all
qed

section \<open>Pagination with a cache service\<close>

lemma paginate_body_miss:
  assumes "validateConfig config = None"
    and "truthy_flag (enableCache config)"
    and "fst (cache_get service cacheKey st) = Inr None"
  shows "paginate_body cacheKey (Some service) xs config st =
           (case computePage xs config of
              Inl ex \<Rightarrow> (Inl (Pagination ex), snd (cache_get service cacheKey st))
            | Inr result \<Rightarrow>
                (Inr result,
                 snd (cache_set service cacheKey result (num_or (cacheTtl config) DEFAULT_CACHE_TTL)
                        (snd (cache_get service cacheKey st)))))"
  using assms
  by (cases "cache_get service cacheKey st")
     (simp add: paginate_body_def Let_def split: sum.split)

lemma computePage_fresh: "computePage xs config = Inr r \<Longrightarrow> \<not> fromCache r"
  by (auto simp: computePage_def Let_def split: if_splits)

text \<open>
  Claim C7, as amended.  For every cache service whose \<^verbatim>\<open>set\<close> throws, every configuration
  that passes validation and has caching enabled, and every state in which \<^verbatim>\<open>get\<close> reports
  a miss for the key of the call: \<open>paginate\<close> throws nothing of the cache and its outcome is
  what it is with caching disabled (with no cache service, or with \<^verbatim>\<open>enableCache\<close> false),
  a result with \<^verbatim>\<open>fromCache = false\<close> when there is one.  As the claim is written, for any
  cache service whose \<^verbatim>\<open>set\<close> throws, it fails when \<^verbatim>\<open>get\<close> reports a hit: the stored
  result is returned, with \<^verbatim>\<open>fromCache = true\<close>, and \<^verbatim>\<open>set\<close> is never called; the
  example after the theorem and its instance runs such a call.
\<close>

theorem cache_write_failure_is_swallowed:
  assumes valid: "validateConfig config = None"
    and enabled: "truthy_flag (enableCache config)"
    and fails: "\<forall>key v ttl s. \<exists>e. fst (cache_set service key v ttl s) = Inl e"
  shows "(fst (cache_get service (generateCacheKey stringify xs (config_object config)) st) = Inr None \<longrightarrow>
            fst (paginateNormal stringify (Some service) xs config st)
              = fst (paginateNormal stringify None xs config st')
            \<and> fst (paginateNormal stringify (Some service) xs config st)
              = fst (paginateNormal stringify (Some service) xs (config\<lparr>enableCache := Some False\<rparr>) st)
            \<and> (\<forall>r. fst (paginateNormal stringify (Some service) xs config st) = Inr r \<longrightarrow> \<not> fromCache r)
            \<and> (\<forall>e. fst (paginateNormal stringify (Some service) xs config st) \<noteq> Inl (Backend e)))
       \<and> (fst (cache_get service (service_generateCacheKey stringify xs config) st) = Inr None \<longrightarrow>
            fst (service_paginate stringify (Some service) xs config st)
              = fst (service_paginate stringify None xs config st')
            \<and> fst (service_paginate stringify (Some service) xs config st)
              = fst (service_paginate stringify (Some service) xs (config\<lparr>enableCache := Some False\<rparr>) st)
            \<and> (\<forall>r. fst (service_paginate stringify (Some service) xs config st) = Inr r \<longrightarrow> \<not> fromCache r)
            \<and> (\<forall>e. fst (service_paginate stringify (Some service) xs config st) \<noteq> Inl (Backend e)))"
proof -
  have off: "validateConfig (config\<lparr>enableCache := Some False\<rparr>) = None"
    using valid by (simp add: validateConfig_None_iff)
  have same: "computePage xs (config\<lparr>enableCache := Some False\<rparr>) = computePage xs config"
    by (simp add: computePage_def)
  have body: "fst (paginate_body cacheKey (Some service) xs config st)
                = fst (paginate_body cacheKey' None xs config st')
              \<and> fst (paginate_body cacheKey (Some service) xs config st)
                = fst (paginate_body cacheKey'' (Some service) xs (config\<lparr>enableCache := Some False\<rparr>) st)
              \<and> (\<forall>r. fst (paginate_body cacheKey (Some service) xs config st) = Inr r \<longrightarrow> \<not> fromCache r)
              \<and> (\<forall>e. fst (paginate_body cacheKey (Some service) xs config st) \<noteq> Inl (Backend e))"
    if miss: "fst (cache_get service cacheKey st) = Inr None" for cacheKey cacheKey' cacheKey''
  proof -
    have a: "fst (paginate_body cacheKey (Some service) xs config st)
               = (case computePage xs config of Inl ex \<Rightarrow> Inl (Pagination ex) | Inr r \<Rightarrow> Inr r)"
      by (simp add: paginate_body_miss [OF valid enabled miss] split: sum.split)
    have b: "fst (paginate_body cacheKey' None xs config st')
               = (case computePage xs config of Inl ex \<Rightarrow> Inl (Pagination ex) | Inr r \<Rightarrow> Inr r)"
      by (simp add: paginate_body_uncached [OF valid] split: sum.split)
    have c: "fst (paginate_body cacheKey'' (Some service) xs (config\<lparr>enableCache := Some False\<rparr>) st)
               = (case computePage xs config of Inl ex \<Rightarrow> Inl (Pagination ex) | Inr r \<Rightarrow> Inr r)"
      by (simp add: paginate_body_uncached [OF off] truthy_flag_def same split: sum.split)
    show ?thesis
      unfolding a b c by (auto split: sum.splits dest: computePage_fresh)
  qed
  have core: "fst (cache_get service (generateCacheKey stringify xs (config_object config)) st) = Inr None \<longrightarrow>
            fst (paginateNormal stringify (Some service) xs config st)
              = fst (paginateNormal stringify None xs config st')
            \<and> fst (paginateNormal stringify (Some service) xs config st)
              = fst (paginateNormal stringify (Some service) xs (config\<lparr>enableCache := Some False\<rparr>) st)
            \<and> (\<forall>r. fst (paginateNormal stringify (Some service) xs config st) = Inr r \<longrightarrow> \<not> fromCache r)
            \<and> (\<forall>e. fst (paginateNormal stringify (Some service) xs config st) \<noteq> Inl (Backend e))"
    unfolding paginateNormal_def by (rule impI) (rule body)
  have svc: "fst (cache_get service (service_generateCacheKey stringify xs config) st) = Inr None \<longrightarrow>
            fst (service_paginate stringify (Some service) xs config st)
              = fst (service_paginate stringify None xs config st')
            \<and> fst (service_paginate stringify (Some service) xs config st)
              = fst (service_paginate stringify (Some service) xs (config\<lparr>enableCache := Some False\<rparr>) st)
            \<and> (\<forall>r. fst (service_paginate stringify (Some service) xs config st) = Inr r \<longrightarrow> \<not> fromCache r)
            \<and> (\<forall>e. fst (service_paginate stringify (Some service) xs config st) \<noteq> Inl (Backend e))"
    unfolding service_paginate_def by (rule impI) (rule body)
  from core svc show ?thesis by (rule conjI)
qed

theorem cache_write_failure_is_swallowed_witness:
  "validateConfig \<lparr>pageSize = 2, page = 2, maxPageSize = None, enableCache = Some True, cacheTtl = None\<rparr> = None
   \<and> truthy_flag (Some True)
   \<and> fst (cache_set (read_only_memory_cache 1000 :: (int PaginatedResult MemoryCache, int PaginatedResult, string) CacheService)
            ''k'' (getAllDataSync []) 1 new_cache) = Inl ''read-only''
   \<and> fst (cache_get (read_only_memory_cache 1000 :: (int PaginatedResult MemoryCache, int PaginatedResult, string) CacheService)
            (generateCacheKey json_numbers [1, 2, 3]
               (config_object \<lparr>pageSize = 2, page = 2, maxPageSize = None,
                               enableCache = Some True, cacheTtl = None\<rparr>)) new_cache) = Inr None
   \<and> fst (paginateNormal json_numbers (Some (read_only_memory_cache 1000)) [1, 2, 3]
            \<lparr>pageSize = 2, page = 2, maxPageSize = None, enableCache = Some True, cacheTtl = None\<rparr>
            new_cache)
       = fst (paginateNormal json_numbers
               (None :: (int PaginatedResult MemoryCache, int PaginatedResult, string) CacheService option)
               [1, 2, 3]
               \<lparr>pageSize = 2, page = 2, maxPageSize = None, enableCache = Some True, cacheTtl = None\<rparr>
               new_cache)
   \<and> fst (paginateNormal json_numbers
               (None :: (int PaginatedResult MemoryCache, int PaginatedResult, string) CacheService option)
               [1, 2, 3]
               \<lparr>pageSize = 2, page = 2, maxPageSize = None, enableCache = Some True, cacheTtl = None\<rparr>
               new_cache)
       = Inr \<lparr>data = [3],
              meta = \<lparr>currentPage = 2, metaPageSize = 2, totalItems = 3, totalPages = 2,
                       hasPrevious = True, hasNext = False, firstItemIndex = 3, lastItemIndex = 3\<rparr>,
              fromCache = False\<rparr>"
proof -
  let ?config = "\<lparr>pageSize = 2, page = 2, maxPageSize = None, enableCache = Some True, cacheTtl = None\<rparr>"
  let ?cache = "read_only_memory_cache 1000
                  :: (int PaginatedResult MemoryCache, int PaginatedResult, string) CacheService"
  let ?none = "None :: (int PaginatedResult MemoryCache, int PaginatedResult, string) CacheService option"
  have valid: "validateConfig ?config = None"
    by (simp add: example_eval)
  have enabled: "truthy_flag (enableCache ?config)"
    by (simp add: truthy_flag_def)
  have fails: "\<forall>key v ttl s. \<exists>e. fst (cache_set ?cache key v ttl s) = Inl e"
    by (simp add: read_only_memory_cache_def)
  have miss: "fst (cache_get ?cache (generateCacheKey json_numbers [1, 2, 3] (config_object ?config))
                     new_cache) = Inr None"
    by (simp add: read_only_memory_cache_def mc_get_def new_cache_def)
  have thrown: "fst (cache_set ?cache ''k'' (getAllDataSync []) 1 new_cache) = Inl ''read-only''"
    by (simp add: read_only_memory_cache_def)
  have same: "fst (paginateNormal json_numbers (Some ?cache) [1, 2, 3] ?config new_cache)
                = fst (paginateNormal json_numbers ?none [1, 2, 3] ?config new_cache)"
    using cache_write_failure_is_swallowed
            [OF valid enabled fails, of json_numbers "[1, 2, 3]" new_cache new_cache,
             THEN conjunct1, THEN mp, OF miss, THEN conjunct1] .
  have fresh: "fst (paginateNormal json_numbers ?none [1, 2, 3] ?config new_cache)
       = Inr \<lparr>data = [3],
              meta = \<lparr>currentPage = 2, metaPageSize = 2, totalItems = 3, totalPages = 2,
                       hasPrevious = True, hasNext = False, firstItemIndex = 3, lastItemIndex = 3\<rparr>,
              fromCache = False\<rparr>"
    by (simp add: paginateNormal_def paginate_body_def example_eval)
  have t: "truthy_flag (Some True)"
    by (simp add: truthy_flag_def)
  show ?thesis
    by (intro conjI valid t thrown miss same fresh)
qed

lemma core_key_of_example:
  "generateCacheKey json_numbers [1, 2, 3]
     (config_object \<lparr>pageSize = 2, page = 2, maxPageSize = None, enableCache = Some True,
                    cacheTtl = None\<rparr>) = ''pagination:9za3ga:r4nwjk''"
  by (simp add: key_eval)

lemma first_call_of_example:
  "snd (paginateNormal json_numbers
          (Some (memoryCacheService (Some 100) 1000
                   :: (int PaginatedResult MemoryCache, int PaginatedResult, string) CacheService))
          [1, 2, 3]
          \<lparr>pageSize = 2, page = 2, maxPageSize = None, enableCache = Some True, cacheTtl = None\<rparr>
          new_cache)
     = \<lparr>cache = [(''pagination:9za3ga:r4nwjk'',
                   \<lparr>entryValue =
                      \<lparr>data = [3],
                       meta = \<lparr>currentPage = 2, metaPageSize = 2, totalItems = 3, totalPages = 2,
                                hasPrevious = True, hasNext = False,
                                firstItemIndex = 3, lastItemIndex = 3\<rparr>,
                       fromCache = False\<rparr>,
                    expiresAt = 301000, createdAt = 1000\<rparr>)],
        accessOrder = [(''pagination:9za3ga:r4nwjk'', 1)],
        accessCounter = 1\<rparr>"
  by (simp add: paginateNormal_def paginate_body_def core_key_of_example example_eval memory_eval)

theorem cache_write_failure_counterexample:
  "validateConfig \<lparr>pageSize = 2, page = 2, maxPageSize = None, enableCache = Some True, cacheTtl = None\<rparr> = None
   \<and> fst (cache_set (read_only_memory_cache 2000)
            ''pagination:9za3ga:r4nwjk''
            \<lparr>data = [3],
             meta = \<lparr>currentPage = 2, metaPageSize = 2, totalItems = 3, totalPages = 2,
                      hasPrevious = True, hasNext = False, firstItemIndex = 3, lastItemIndex = 3\<rparr>,
             fromCache = False\<rparr>
            300000
            (snd (paginateNormal json_numbers
                    (Some (memoryCacheService (Some 100) 1000
                             :: (int PaginatedResult MemoryCache, int PaginatedResult, string) CacheService))
                    [1, 2, 3]
                    \<lparr>pageSize = 2, page = 2, maxPageSize = None, enableCache = Some True,
                     cacheTtl = None\<rparr>
                    new_cache))) = Inl ''read-only''
   \<and> fst (paginateNormal json_numbers (Some (read_only_memory_cache 2000)) [1, 2, 3]
            \<lparr>pageSize = 2, page = 2, maxPageSize = None, enableCache = Some True, cacheTtl = None\<rparr>
            (snd (paginateNormal json_numbers
                    (Some (memoryCacheService (Some 100) 1000
                             :: (int PaginatedResult MemoryCache, int PaginatedResult, string) CacheService))
                    [1, 2, 3]
                    \<lparr>pageSize = 2, page = 2, maxPageSize = None, enableCache = Some True,
                     cacheTtl = None\<rparr>
                    new_cache)))
       = Inr \<lparr>data = [3],
              meta = \<lparr>currentPage = 2, metaPageSize = 2, totalItems = 3, totalPages = 2,
                       hasPrevious = True, hasNext = False, firstItemIndex = 3, lastItemIndex = 3\<rparr>,
              fromCache = True\<rparr>
   \<and> fst (paginateNormal json_numbers (Some (read_only_memory_cache 2000)) [1, 2, 3]
            \<lparr>pageSize = 2, page = 2, maxPageSize = None, enableCache = Some False, cacheTtl = None\<rparr>
            (snd (paginateNormal json_numbers
                    (Some (memoryCacheService (Some 100) 1000
                             :: (int PaginatedResult MemoryCache, int PaginatedResult, string) CacheService))
                    [1, 2, 3]
                    \<lparr>pageSize = 2, page = 2, maxPageSize = None, enableCache = Some True,
                     cacheTtl = None\<rparr>
                    new_cache)))
       = Inr \<lparr>data = [3],
              meta = \<lparr>currentPage = 2, metaPageSize = 2, totalItems = 3, totalPages = 2,
                       hasPrevious = True, hasNext = False, firstItemIndex = 3, lastItemIndex = 3\<rparr>,
              fromCache = False\<rparr>"
  unfolding first_call_of_example
  by (simp add: paginateNormal_def paginate_body_def core_key_of_example read_only_memory_cache_def
        mc_get_def example_eval)

section \<open>The lifetime of a stored result\<close>

lemma stored_lifetime:
  assumes valid: "validateConfig config = None"
    and enabled: "truthy_flag (enableCache config)"
    and miss: "fst (cache_get service cacheKey st) = Inr None"
    and page: "computePage xs config = Inr result"
  shows "snd (paginate_body cacheKey (Some service) xs config st)
           = snd (cache_set service cacheKey result
                    (case cacheTtl config of
                       None \<Rightarrow> 300000
                     | Some t \<Rightarrow> if t = 0 then 300000 else t)
                    (snd (cache_get service cacheKey st)))"
  by (simp add: paginate_body_miss [OF valid enabled miss] page num_or_def DEFAULT_CACHE_TTL_def
        split: option.split)

text \<open>
  Claim C8 says that the result is stored with the lifetime the call provides, whatever
  non-negative integer that is, and with the default of 300000 ms only when the call provides
  none.  \<open>stored_lifetime\<close> above is what the code does: the lifetime passed to \<^verbatim>\<open>set\<close> is
  \<^verbatim>\<open>config.cacheTtl || DEFAULT_CACHE_TTL\<close>, the default also for the lifetime 0,
  which \<^verbatim>\<open>validateConfig\<close> accepts.  The theorem runs \<^verbatim>\<open>paginate\<close> on the in-memory cache
  with the clock at 1000: with \<^verbatim>\<open>cacheTtl = 0\<close> the entry expires at 301000, not at 1000,
  while with \<^verbatim>\<open>cacheTtl = 1\<close> it expires at 1001.
\<close>

theorem zero_ttl_stored_with_default:
  "validateConfig \<lparr>pageSize = 10, page = 1, maxPageSize = None, enableCache = Some True, cacheTtl = Some 0\<rparr> = None
   \<and> map (expiresAt \<circ> snd)
         (cache (snd (paginateNormal json_numbers
                        (Some (memoryCacheService (Some 100) 1000
                                 :: (int PaginatedResult MemoryCache, int PaginatedResult, unit) CacheService))
                        [1, 2, 3]
                        \<lparr>pageSize = 10, page = 1, maxPageSize = None, enableCache = Some True,
                         cacheTtl = Some 0\<rparr>
                        new_cache)))
       = [301000]
   \<and> map (expiresAt \<circ> snd)
         (cache (snd (paginateNormal json_numbers
                        (Some (memoryCacheService (Some 100) 1000
                                 :: (int PaginatedResult MemoryCache, int PaginatedResult, unit) CacheService))
                        [1, 2, 3]
                        \<lparr>pageSize = 10, page = 1, maxPageSize = None, enableCache = Some True,
                         cacheTtl = Some 1\<rparr>
                        new_cache)))
       = [1001]
   \<and> map (expiresAt \<circ> snd)
         (cache (snd (service_paginate json_numbers
                        (Some (memoryCacheService (Some 100) 1000
                                 :: (int PaginatedResult MemoryCache, int PaginatedResult, unit) CacheService))
                        [1, 2, 3]
                        \<lparr>pageSize = 10, page = 1, maxPageSize = None, enableCache = Some True,
                         cacheTtl = Some 0\<rparr>
                        new_cache)))
       = [301000]"
  by (simp add: paginateNormal_def service_paginate_def paginate_body_def example_eval memory_eval)


section \<open>What the cache key depends on\<close>

lemma service_key_fields:
  assumes "stringify xs = stringify ys" and "page c = page c'" and "pageSize c = pageSize c'"
  shows "service_generateCacheKey stringify xs c = service_generateCacheKey stringify ys c'"
  using assms by (simp add: service_generateCacheKey_def generateCacheKey_def hashArray_def)

lemma core_key_1000:
  "generateCacheKey json_numbers [1, 2, 3]
     (config_object \<lparr>pageSize = 10, page = 1, maxPageSize = None, enableCache = Some True,
                    cacheTtl = Some 1000\<rparr>) = ''pagination:9za3ga:syt83''"
  by (simp add: key_eval)

lemma core_key_2000:
  "generateCacheKey json_numbers [1, 2, 3]
     (config_object \<lparr>pageSize = 10, page = 1, maxPageSize = None, enableCache = Some True,
                    cacheTtl = Some 2000\<rparr>) = ''pagination:9za3ga:xeevuc''"
  by (simp add: key_eval)

lemma service_key_any:
  "service_generateCacheKey json_numbers [1, 2, 3]
     \<lparr>pageSize = 10, page = 1, maxPageSize = m, enableCache = e, cacheTtl = t\<rparr>
     = ''pagination:9za3ga:16y4d9''"
  by (simp add: key_eval)

text \<open>
  Claim C4 says that the cache key depends on the data, the page and the page size only.
  \<^verbatim>\<open>PaginatorService.generateCacheKey\<close> hashes these two fields (\<open>service_key_fields\<close>
  above), but \<^verbatim>\<open>CorePaginator.paginateNormal\<close> hashes the whole normalised configuration:
  the theorem computes, for the same data, page and page size, the keys of two calls that
  differ in \<^verbatim>\<open>cacheTtl\<close> only; the core keys differ, the service keys are equal, and on
  the in-memory cache the second call of the core paginator misses the entry of the first,
  where the second call of the service hits it.
\<close>

theorem core_cache_key_depends_on_ttl:
  "generateCacheKey json_numbers [1, 2, 3]
     (config_object \<lparr>pageSize = 10, page = 1, maxPageSize = None, enableCache = Some True,
                    cacheTtl = Some 1000\<rparr>) = ''pagination:9za3ga:syt83''
   \<and> generateCacheKey json_numbers [1, 2, 3]
     (config_object \<lparr>pageSize = 10, page = 1, maxPageSize = None, enableCache = Some True,
                    cacheTtl = Some 2000\<rparr>) = ''pagination:9za3ga:xeevuc''
   \<and> service_generateCacheKey json_numbers [1, 2, 3]
        \<lparr>pageSize = 10, page = 1, maxPageSize = None, enableCache = Some True, cacheTtl = Some 1000\<rparr>
       = ''pagination:9za3ga:16y4d9''
   \<and> service_generateCacheKey json_numbers [1, 2, 3]
        \<lparr>pageSize = 10, page = 1, maxPageSize = None, enableCache = Some True, cacheTtl = Some 2000\<rparr>
       = ''pagination:9za3ga:16y4d9''
   \<and> fst (paginateNormal json_numbers
               (Some (memoryCacheService (Some 100) 1000
                        :: (int PaginatedResult MemoryCache, int PaginatedResult, unit) CacheService))
               [1, 2, 3]
               \<lparr>pageSize = 10, page = 1, maxPageSize = None, enableCache = Some True, cacheTtl = Some 2000\<rparr>
               (snd (paginateNormal json_numbers
                       (Some (memoryCacheService (Some 100) 1000))
                       [1, 2, 3]
                       \<lparr>pageSize = 10, page = 1, maxPageSize = None, enableCache = Some True,
                        cacheTtl = Some 1000\<rparr>
                       new_cache)))
       = Inr \<lparr>data = [1, 2, 3],
              meta = \<lparr>currentPage = 1, metaPageSize = 10, totalItems = 3, totalPages = 1,
                       hasPrevious = False, hasNext = False, firstItemIndex = 1, lastItemIndex = 3\<rparr>,
              fromCache = False\<rparr>
   \<and> fst (service_paginate json_numbers
               (Some (memoryCacheService (Some 100) 1000
                        :: (int PaginatedResult MemoryCache, int PaginatedResult, unit) CacheService))
               [1, 2, 3]
               \<lparr>pageSize = 10, page = 1, maxPageSize = None, enableCache = Some True, cacheTtl = Some 2000\<rparr>
               (snd (service_paginate json_numbers
                       (Some (memoryCacheService (Some 100) 1000))
                       [1, 2, 3]
                       \<lparr>pageSize = 10, page = 1, maxPageSize = None, enableCache = Some True,
                        cacheTtl = Some 1000\<rparr>
                       new_cache)))
       = Inr \<lparr>data = [1, 2, 3],
              meta = \<lparr>currentPage = 1, metaPageSize = 10, totalItems = 3, totalPages = 1,
                       hasPrevious = False, hasNext = False, firstItemIndex = 1, lastItemIndex = 3\<rparr>,
              fromCache = True\<rparr>"
  by (simp add: paginateNormal_def service_paginate_def core_key_1000 core_key_2000 service_key_any
        paginate_body_def example_eval memory_eval)

section \<open>The capacity of the in-memory cache\<close>

text \<open>For a positive capacity \<^verbatim>\<open>SimpleCache.set\<close> is \<^verbatim>\<open>MemoryCacheService.set\<close>.\<close>

lemma sc_set_is_mc_set: "N \<noteq> 0 \<Longrightarrow> sc_set N now key v ttl s = mc_set (Some N) now key v ttl s"
  by (simp add: sc_set_def mc_set_def num_or_def)

lemma keys_agree_new: "keys_agree new_cache"
  by (simp add: keys_agree_def new_cache_def)

lemma keys_agree_clear: "keys_agree (mc_clear s)"
  by (simp add: keys_agree_def mc_clear_def)

lemma keys_agree_delete: "keys_agree s \<Longrightarrow> keys_agree (mc_delete key s)"
  by (simp add: keys_agree_def mc_delete_def AList.delete_keys distinct_removeAll)

lemma keys_agree_touch:
  assumes "keys_agree s" and "key \<in> set (map fst (cache s))"
  shows "keys_agree (s\<lparr>accessOrder := AList.update key c (accessOrder s), accessCounter := n\<rparr>)"
  using assms by (simp add: keys_agree_def AList.update_keys)

lemma keys_agree_get: "keys_agree s \<Longrightarrow> keys_agree (snd (mc_get now key s))"
proof -
  assume a: "keys_agree s"
  show ?thesis
  proof (cases "map_of (cache s) key")
    case None
    then show ?thesis using a by (simp add: mc_get_def)
  next
    case (Some entry)
    then have "key \<in> set (map fst (cache s))"
      by (auto dest: map_of_SomeD intro: rev_image_eqI)
    then show ?thesis
      using a Some by (simp add: mc_get_def keys_agree_delete keys_agree_touch)
  qed
qed

lemma keys_agree_has: "keys_agree s \<Longrightarrow> keys_agree (snd (mc_has now key s))"
  by (simp add: mc_has_def keys_agree_delete split: option.split)

lemma keys_agree_evict: "keys_agree s \<Longrightarrow> keys_agree (evictLeastRecentlyUsed s)"
  by (simp add: evictLeastRecentlyUsed_def keys_agree_delete split: option.split)

lemma keys_agree_store:
  assumes "keys_agree s"
  shows "keys_agree (s\<lparr>cache := AList.update key e (cache s),
                       accessOrder := AList.update key c (accessOrder s),
                       accessCounter := n\<rparr>)"
  using assms by (auto simp: keys_agree_def AList.update_keys)

lemma keys_agree_set: "keys_agree s \<Longrightarrow> keys_agree (mc_set maxSize now key v ttl s)"
  unfolding mc_set_def Let_def
  by (intro keys_agree_store) (simp add: keys_agree_evict)

lemma keys_agree_deletes: "keys_agree s \<Longrightarrow> keys_agree (foldl (\<lambda>s' key. mc_delete key s') s ks)"
  by (induction ks arbitrary: s) (simp_all add: keys_agree_delete)

lemma keys_agree_cleanup: "keys_agree s \<Longrightarrow> keys_agree (snd (cleanupExpired now s))"
  by (simp add: cleanupExpired_def Let_def keys_agree_deletes)

lemma keys_agree_call: "keys_agree s \<Longrightarrow> keys_agree (call maxSize c s)"
proof -
  assume a: "keys_agree s"
  obtain now op where c: "c = (now, op)" by (cases c)
  show ?thesis
    unfolding c using a
    by (cases op)
       (simp_all add: keys_agree_get keys_agree_set keys_agree_delete keys_agree_clear
          keys_agree_has keys_agree_cleanup)
qed

lemma keys_agree_calls: "keys_agree s \<Longrightarrow> keys_agree (calls maxSize cs s)"
  unfolding calls_def by (induction cs arbitrary: s) (simp_all add: keys_agree_call)

lemma lru_step_first: "lru_step (None, \<infinity>) (k, c) = (Some k, enat c)"
  by (simp add: lru_step_def)

lemma lru_fold_key:
  "\<exists>k b. foldl lru_step (Some k0, a) es = (Some k, b) \<and> k \<in> insert k0 (set (map fst es))"
proof (induction es arbitrary: k0 a)
  case Nil
  show ?case by simp
next
  case (Cons e es)
  obtain k1 c1 where e: "e = (k1, c1)" by (cases e)
  show ?case
  proof (cases "enat c1 < a")
    case True
    then have "foldl lru_step (Some k0, a) (e # es) = foldl lru_step (Some k1, enat c1) es"
      by (simp add: e lru_step_def)
    then show ?thesis
      using Cons.IH [of k1 "enat c1"] e by auto
  next
    case False
    then have "foldl lru_step (Some k0, a) (e # es) = foldl lru_step (Some k0, a) es"
      by (simp add: e lru_step_def)
    then show ?thesis
      using Cons.IH [of k0 a] by auto
  qed
qed

lemma lru_scan_key:
  assumes "es \<noteq> []"
  shows "\<exists>k. fst (lru_scan es) = Some k \<and> k \<in> set (map fst es)"
proof -
  obtain k0 c0 es' where es: "es = (k0, c0) # es'"
    using assms by (cases es) auto
  obtain k b where "foldl lru_step (Some k0, enat c0) es' = (Some k, b)"
    and "k \<in> insert k0 (set (map fst es'))"
    using lru_fold_key [of k0 "enat c0" es'] by blast
  then show ?thesis
    by (auto simp: lru_scan_def es lru_step_first)
qed

lemma length_delete_present:
  assumes "distinct (map fst al)" and "k \<in> set (map fst al)"
  shows "Suc (length (AList.delete k al)) = length al"
  using assms
proof (induction al)
  case Nil
  then show ?case by simp
next
  case (Cons p al)
  show ?case
  proof (cases "fst p = k")
    case True
    then have "k \<notin> fst ` set al"
      using Cons.prems(1) by auto
    then show ?thesis
      using True by simp
  next
    case False
    then show ?thesis
      using Cons by auto
  qed
qed

lemma length_update:
  "length (AList.update k v al) = (if k \<in> set (map fst al) then length al else Suc (length al))"
  using arg_cong [OF AList.update_keys [of k v al], of length] by (simp split: if_splits)

lemma delete_shrinks:
  "length (cache (mc_delete key s)) \<le> length (cache s)
   \<and> set (map fst (cache (mc_delete key s))) \<subseteq> set (map fst (cache s))"
  using AList.dom_delete_subset [of key "cache s"]
  by (simp add: mc_delete_def AList.length_delete_le)

lemma deletes_shrink:
  "length (cache (foldl (\<lambda>s' key. mc_delete key s') s ks)) \<le> length (cache s)
   \<and> set (map fst (cache (foldl (\<lambda>s' key. mc_delete key s') s ks))) \<subseteq> set (map fst (cache s))"
proof (induction ks arbitrary: s)
  case Nil
  show ?case by simp
next
  case (Cons k ks)
  show ?case
    using Cons.IH [of "mc_delete k s"] delete_shrinks [of k s] by auto
qed

lemma get_shrinks:
  "length (cache (snd (mc_get now key s))) \<le> length (cache s)
   \<and> set (map fst (cache (snd (mc_get now key s)))) \<subseteq> set (map fst (cache s))"
  using delete_shrinks [of key s] by (simp add: mc_get_def split: option.split)

lemma has_shrinks:
  "length (cache (snd (mc_has now key s))) \<le> length (cache s)
   \<and> set (map fst (cache (snd (mc_has now key s)))) \<subseteq> set (map fst (cache s))"
  using delete_shrinks [of key s] by (simp add: mc_has_def split: option.split)

lemma cleanup_shrinks:
  "length (cache (snd (cleanupExpired now s))) \<le> length (cache s)
   \<and> set (map fst (cache (snd (cleanupExpired now s)))) \<subseteq> set (map fst (cache s))"
  using deletes_shrink [of s "map fst (filter (\<lambda>(key, entry). now > expiresAt entry) (cache s))"]
  by (simp add: cleanupExpired_def Let_def)

lemma evict_removes_one:
  assumes agree: "keys_agree s" and nonempty: "cache s \<noteq> []" and named: "[] \<notin> set (map fst (cache s))"
  shows "Suc (length (cache (evictLeastRecentlyUsed s))) = length (cache s)
         \<and> set (map fst (cache (evictLeastRecentlyUsed s))) \<subseteq> set (map fst (cache s))"
proof -
  have order: "accessOrder s \<noteq> []"
  proof
    assume "accessOrder s = []"
    then have "set (map fst (cache s)) = {}"
      using agree by (simp add: keys_agree_def)
    then show False
      using nonempty by simp
  qed
  then obtain k where k: "fst (lru_scan (accessOrder s)) = Some k" and "k \<in> set (map fst (accessOrder s))"
    using lru_scan_key by blast
  then have present: "k \<in> set (map fst (cache s))"
    using agree by (simp add: keys_agree_def)
  have "k \<noteq> []"
  proof
    assume "k = []"
    with present named show False by simp
  qed
  then have "evictLeastRecentlyUsed s = mc_delete k s"
    using order k by (simp add: evictLeastRecentlyUsed_def)
  moreover have "Suc (length (cache (mc_delete k s))) = length (cache s)"
    using length_delete_present [of "cache s" k] agree present
    by (simp add: mc_delete_def keys_agree_def)
  ultimately show ?thesis
    using delete_shrinks [of k s] by simp
qed

lemma set_within_capacity:
  assumes agree: "keys_agree s" and cap: "int (length (cache s)) \<le> N" and pos: "1 \<le> N"
    and named: "[] \<notin> set (map fst (cache s))" and key: "key \<noteq> []"
  shows "int (length (cache (mc_set (Some N) now key v ttl s))) \<le> N
         \<and> [] \<notin> set (map fst (cache (mc_set (Some N) now key v ttl s)))"
proof (cases "int (length (cache s)) \<ge> N \<and> map_of (cache s) key = None")
  case True
  then have full: "int (length (cache s)) = N" and new: "map_of (cache s) key = None"
    using cap by simp_all
  have "cache s \<noteq> []"
    using full pos by auto
  then have e: "Suc (length (cache (evictLeastRecentlyUsed s))) = length (cache s)"
    and sub: "set (map fst (cache (evictLeastRecentlyUsed s))) \<subseteq> set (map fst (cache s))"
    using evict_removes_one [OF agree _ named] by simp_all
  have s: "cache (mc_set (Some N) now key v ttl s)
             = AList.update key \<lparr>entryValue = v, expiresAt = now + ttl, createdAt = now\<rparr>
                 (cache (evictLeastRecentlyUsed s))"
    using True pos by (simp add: mc_set_def Let_def num_or_def)
  have "length (cache (mc_set (Some N) now key v ttl s)) \<le> Suc (length (cache (evictLeastRecentlyUsed s)))"
    unfolding s by (simp add: length_update)
  moreover have "set (map fst (cache (mc_set (Some N) now key v ttl s)))
                   \<subseteq> insert key (set (map fst (cache (evictLeastRecentlyUsed s))))"
    unfolding s by (auto simp: AList.update_keys split: if_splits)
  ultimately show ?thesis
    using e full sub named key by auto
next
  case False
  then have s: "cache (mc_set (Some N) now key v ttl s)
             = AList.update key \<lparr>entryValue = v, expiresAt = now + ttl, createdAt = now\<rparr> (cache s)"
    using pos by (auto simp: mc_set_def Let_def num_or_def)
  have room: "int (length (cache s)) < N \<or> key \<in> set (map fst (cache s))"
    using False cap by (auto simp: map_of_eq_None_iff)
  have "int (length (cache (mc_set (Some N) now key v ttl s))) \<le> N"
    unfolding s using room cap by (auto simp: length_update)
  moreover have "set (map fst (cache (mc_set (Some N) now key v ttl s)))
                   \<subseteq> insert key (set (map fst (cache s)))"
    unfolding s by (auto simp: AList.update_keys split: if_splits)
  ultimately show ?thesis
    using named key by auto
qed

lemma call_within_capacity:
  assumes agree: "keys_agree s" and cap: "int (length (cache s)) \<le> N" and pos: "1 \<le> N"
    and named: "[] \<notin> set (map fst (cache s))"
    and key: "\<forall>k v ttl. snd c = Set k v ttl \<longrightarrow> k \<noteq> []"
  shows "int (length (cache (call (Some N) c s))) \<le> N
         \<and> [] \<notin> set (map fst (cache (call (Some N) c s)))"
proof -
  obtain now op where c: "c = (now, op)" by (cases c)
  show ?thesis
  proof (cases op)
    case (Get k)
    then show ?thesis
      using get_shrinks [of now k s] cap named unfolding c by auto
  next
    case (Set k v ttl)
    then have "k \<noteq> []" using key c by simp
    then show ?thesis
      using set_within_capacity [OF agree cap pos named] Set unfolding c by simp
  next
    case (Delete k)
    then show ?thesis
      using delete_shrinks [of k s] cap named unfolding c by auto
  next
    case Clear
    then show ?thesis
      using pos unfolding c by (simp add: mc_clear_def)
  next
    case (Has k)
    then show ?thesis
      using has_shrinks [of now k s] cap named unfolding c by auto
  next
    case CleanupExpired
    then show ?thesis
      using cleanup_shrinks [of now s] cap named unfolding c by auto
  qed
qed

lemma calls_within_capacity:
  assumes "keys_agree s" and "int (length (cache s)) \<le> N" and "1 \<le> N"
    and "[] \<notin> set (map fst (cache s))"
    and "\<forall>c \<in> set cs. \<forall>k v ttl. snd c = Set k v ttl \<longrightarrow> k \<noteq> []"
  shows "int (length (cache (calls (Some N) cs s))) \<le> N"
  using assms
proof (induction cs arbitrary: s)
  case Nil
  then show ?case by (simp add: calls_def)
next
  case (Cons c cs)
  have step: "int (length (cache (call (Some N) c s))) \<le> N
         \<and> [] \<notin> set (map fst (cache (call (Some N) c s)))"
    using call_within_capacity [OF Cons.prems(1-4)] Cons.prems(5) by simp
  have "int (length (cache (calls (Some N) cs (call (Some N) c s)))) \<le> N"
    using Cons.IH [OF keys_agree_call [OF Cons.prems(1)] _ Cons.prems(3)] step Cons.prems(5)
    by simp
  then show ?case by (simp add: calls_def)
qed

lemma capacity_with_named_keys:
  assumes "1 \<le> N" and "\<forall>c \<in> set cs. \<forall>k v ttl. snd c = Set k v ttl \<longrightarrow> k \<noteq> []"
  shows "int (length (cache (calls (Some N) cs new_cache))) \<le> N
         \<and> set (map fst (cache (calls (Some N) cs new_cache)))
             = set (map fst (accessOrder (calls (Some N) cs new_cache)))"
proof -
  have "int (length (cache (calls (Some N) cs new_cache))) \<le> N"
    using calls_within_capacity [OF keys_agree_new _ assms(1) _ assms(2)] assms(1)
    by (simp add: new_cache_def)
  moreover have "keys_agree (calls (Some N) cs new_cache)"
    by (rule keys_agree_calls [OF keys_agree_new])
  ultimately show ?thesis
    by (simp add: keys_agree_def)
qed

text \<open>
  Claim C9 says that a cache with \<open>maxSize = N \<ge> 1\<close> never holds more than \<open>N\<close> entries
  and that its two maps always have the same keys.  The second half holds after every sequence
  of calls (\<open>keys_agree_calls\<close>), and so does the first when no key that is set is the empty
  string (\<open>capacity_with_named_keys\<close>).  With the empty string as a key the bound fails:
  \<^verbatim>\<open>evictLeastRecentlyUsed\<close> finds the key and then tests \<^verbatim>\<open>if (lruKey)\<close>, which is
  false for it, so nothing is evicted.  The theorem runs \<^verbatim>\<open>set('', ...)\<close> and \<^verbatim>\<open>set('b', ...)\<close>
  on an empty cache with \<open>maxSize = 1\<close>: the cache ends with two entries, where the same
  calls with the key \<^verbatim>\<open>'a'\<close> in place of the empty one leave one.
\<close>

theorem capacity_exceeded_with_empty_key:
  "map fst (cache (calls (Some 1) [(0, Set [] ''v1'' 5000), (0, Set ''b'' ''v2'' 5000)] new_cache))
     = [[], ''b'']
   \<and> length (cache (calls (Some 1) [(0, Set [] ''v1'' 5000), (0, Set ''b'' ''v2'' 5000)] new_cache)) = 2
   \<and> map fst (accessOrder (calls (Some 1) [(0, Set [] ''v1'' 5000), (0, Set ''b'' ''v2'' 5000)] new_cache))
     = [[], ''b'']
   \<and> length (cache (calls (Some 1) [(0, Set ''a'' ''v1'' 5000), (0, Set ''b'' ''v2'' 5000)] new_cache)) = 1"
  by (simp add: calls_def memory_eval num_or_def)


section \<open>The order of eviction\<close>

lemma update_fresh:
  "k \<notin> set (map fst al) \<Longrightarrow> AList.update k v al = al @ [(k, v)]"
  by (induction al) auto

lemma calls_snoc: "calls maxSize (cs @ [c]) s = call maxSize c (calls maxSize cs s)"
  by (simp add: calls_def)

lemma calls_append: "calls maxSize (cs @ ds) s = calls maxSize ds (calls maxSize cs s)"
  by (simp add: calls_def)

lemma lru_fold_keeps:
  assumes "\<forall>e \<in> set es. c \<le> snd e"
  shows "foldl lru_step (Some k, enat c) es = (Some k, enat c)"
  using assms by (induction es) (auto simp: lru_step_def)

lemma numbered_append: "numbered n (xs @ ys) = numbered n xs @ numbered (n + length xs) ys"
  by (induction xs arbitrary: n) simp_all

lemma numbered_keys [simp]: "map fst (numbered n xs) = xs"
  by (induction xs arbitrary: n) simp_all

lemma numbered_counters: "e \<in> set (numbered n xs) \<Longrightarrow> n \<le> snd e"
  by (induction xs arbitrary: n) (auto simp: Suc_leD)

lemma inserts_state:
  fixes items :: "(string \<times> 'v \<times> int \<times> int) list"
  assumes "distinct (map fst items)" and "int (length items) \<le> N"
  shows "calls (Some N) (map (\<lambda>(k, v, ttl, t). (t, Set k v ttl)) items) new_cache
           = \<lparr>cache = map (\<lambda>(k, v, ttl, t). (k, \<lparr>entryValue = v, expiresAt = t + ttl, createdAt = t\<rparr>)) items,
              accessOrder = numbered 1 (map fst items),
              accessCounter = length items\<rparr>"
  using assms
proof (induction items rule: rev_induct)
  case Nil
  show ?case by (simp add: calls_def new_cache_def)
next
  case (snoc x xs)
  obtain k v ttl t where x: "x = (k, v, ttl, t)" by (cases x)
  let ?s = "calls (Some N) (map (\<lambda>(k, v, ttl, t). (t, Set k v ttl)) xs) new_cache"
  have s: "?s = \<lparr>cache = map (\<lambda>(k, v, ttl, t). (k, \<lparr>entryValue = v, expiresAt = t + ttl, createdAt = t\<rparr>)) xs,
              accessOrder = numbered 1 (map fst xs),
              accessCounter = length xs\<rparr>"
    using snoc by simp
  have fresh: "k \<notin> set (map fst xs)"
    using snoc.prems(1) x by simp
  have fresh_cache: "k \<notin> set (map fst (cache ?s))"
    using fresh by (simp add: s comp_def case_prod_beta)
  have "map fst (accessOrder ?s) = map fst xs"
    by (simp add: s)
  then have fresh_order: "k \<notin> set (map fst (accessOrder ?s))"
    using fresh by simp
  have room: "\<not> int (length (cache ?s)) \<ge> N"
    using snoc.prems(2) by (simp add: s)
  have "mc_set (Some N) t k v ttl ?s
          = ?s\<lparr>cache := cache ?s @ [(k, \<lparr>entryValue = v, expiresAt = t + ttl, createdAt = t\<rparr>)],
               accessOrder := accessOrder ?s @ [(k, Suc (accessCounter ?s))],
               accessCounter := Suc (accessCounter ?s)\<rparr>"
    using room by (simp add: mc_set_def Let_def update_fresh [OF fresh_cache] update_fresh [OF fresh_order])
  then show ?case
    by (simp add: calls_snoc x s numbered_append)
qed

lemma lru_evicts_second_inserted:
  fixes rest :: "(string \<times> 'v \<times> int \<times> int) list"
  assumes keys: "distinct (k1 # k2 # map fst rest)"
    and size: "N = int (length rest) + 2"
    and named: "k2 \<noteq> []"
    and live: "tg \<le> t1 + ttl1"
    and new: "k' \<notin> set (k1 # k2 # map fst rest)"
  shows "map fst (cache (calls (Some N)
                     (map (\<lambda>(k, v, ttl, t). (t, Set k v ttl)) ((k1, v1, ttl1, t1) # (k2, v2, ttl2, t2) # rest))
                     new_cache))
           = k1 # k2 # map fst rest
         \<and> map fst (cache (calls (Some N)
                     (map (\<lambda>(k, v, ttl, t). (t, Set k v ttl)) ((k1, v1, ttl1, t1) # (k2, v2, ttl2, t2) # rest)
                        @ [(tg, Get k1), (tn, Set k' v' ttl')])
                     new_cache))
           = k1 # map fst rest @ [k']"
proof -
  let ?entry = "\<lambda>(k, v, ttl, t). (k, \<lparr>entryValue = v, expiresAt = t + ttl, createdAt = t\<rparr>)"
  let ?items = "(k1, v1, ttl1, t1) # (k2, v2, ttl2, t2) # rest"
  let ?n = "length rest + 2"
  define filled where "filled = calls (Some N) (map (\<lambda>(k, v, ttl, t). (t, Set k v ttl)) ?items) new_cache"
  have "distinct (map fst ?items)" and "int (length ?items) \<le> N"
    using keys size by simp_all
  then have filled: "filled = \<lparr>cache = (k1, \<lparr>entryValue = v1, expiresAt = t1 + ttl1, createdAt = t1\<rparr>)
                                  # (k2, \<lparr>entryValue = v2, expiresAt = t2 + ttl2, createdAt = t2\<rparr>)
                                  # map ?entry rest,
                               accessOrder = (k1, 1) # (k2, 2) # numbered 3 (map fst rest),
                               accessCounter = ?n\<rparr>"
    unfolding filled_def by (subst inserts_state) (simp_all add: numeral_3_eq_3 numeral_2_eq_2)
  have rest_keys: "map (fst \<circ> ?entry) rest = map fst rest"
    by (simp add: comp_def case_prod_beta)
  define touched where "touched = snd (mc_get tg k1 filled)"
  have touched: "touched = filled\<lparr>accessOrder := (k1, Suc ?n) # (k2, 2) # numbered 3 (map fst rest),
                                  accessCounter := Suc ?n\<rparr>"
    unfolding touched_def using live by (simp add: mc_get_def filled)
  have k12: "k1 \<noteq> k2" and k2_rest: "k2 \<notin> set (map fst rest)"
    using keys by auto
  have "foldl lru_step (Some k2, enat 2) (numbered 3 (map fst rest)) = (Some k2, enat 2)"
  proof (rule lru_fold_keeps, rule ballI)
    fix e assume "e \<in> set (numbered 3 (map fst rest))"
    then have "3 \<le> snd e" by (rule numbered_counters)
    then show "2 \<le> snd e" by simp
  qed
  then have scan: "lru_scan (accessOrder touched) = (Some k2, enat 2)"
    by (simp add: lru_scan_def touched lru_step_def)
  have entry_keys: "fst ` set (map ?entry rest) = set (map fst rest)"
    by (simp add: image_image case_prod_beta)
  have order_keys: "fst ` set (numbered 3 (map fst rest)) = set (map fst rest)"
    using arg_cong [OF numbered_keys [of 3 "map fst rest"], of set] by (simp only: set_map)
  have k2_entries: "k2 \<notin> fst ` set (map ?entry rest)" and k2_order: "k2 \<notin> fst ` set (numbered 3 (map fst rest))"
    using k2_rest unfolding entry_keys order_keys by simp_all
  have evicted: "evictLeastRecentlyUsed touched
                   = touched\<lparr>cache := (k1, \<lparr>entryValue = v1, expiresAt = t1 + ttl1, createdAt = t1\<rparr>)
                                          # map ?entry rest,
                              accessOrder := (k1, Suc ?n) # numbered 3 (map fst rest)\<rparr>"
    using named k12 k2_entries k2_order
    by (simp add: evictLeastRecentlyUsed_def scan mc_delete_def) (simp add: touched filled)
  have full: "int (length (cache touched)) \<ge> N"
    by (simp add: touched filled size)
  have fresh: "map_of (cache touched) k' = None"
    using new by (simp add: touched filled map_of_eq_None_iff image_image case_prod_beta)
  have fresh_cache: "k' \<notin> set (map fst ((k1, \<lparr>entryValue = v1, expiresAt = t1 + ttl1, createdAt = t1\<rparr>)
                                          # map ?entry rest))"
    using new by (simp add: rest_keys)
  have fresh_order: "k' \<notin> set (map fst ((k1, Suc ?n) # numbered 3 (map fst rest)))"
    using new by simp
  have pos: "num_or (Some N) 0 \<noteq> 0"
    using size by (simp add: num_or_def)
  have final: "cache (mc_set (Some N) tn k' v' ttl' touched)
                 = ((k1, \<lparr>entryValue = v1, expiresAt = t1 + ttl1, createdAt = t1\<rparr>) # map ?entry rest)
                   @ [(k', \<lparr>entryValue = v', expiresAt = tn + ttl', createdAt = tn\<rparr>)]"
  proof -
    have step: "cache (mc_set (Some N) tn k' v' ttl' touched)
                  = AList.update k' \<lparr>entryValue = v', expiresAt = tn + ttl', createdAt = tn\<rparr>
                      (cache (evictLeastRecentlyUsed touched))"
      using full fresh pos by (simp add: mc_set_def Let_def)
    have left: "cache (evictLeastRecentlyUsed touched)
                  = (k1, \<lparr>entryValue = v1, expiresAt = t1 + ttl1, createdAt = t1\<rparr>) # map ?entry rest"
      by (simp add: evicted)
    show ?thesis
      unfolding step left by (rule update_fresh [OF fresh_cache])
  qed
  have a: "map fst (cache filled) = k1 # k2 # map fst rest"
    by (simp add: filled rest_keys)
  have b: "map fst (cache (calls (Some N) [(tg, Get k1), (tn, Set k' v' ttl')] filled))
             = k1 # map fst rest @ [k']"
    by (simp add: calls_def final rest_keys flip: touched_def)
  show ?thesis
    using a b unfolding filled_def calls_append by simp
qed

text \<open>
  Claim C5 says that after \<open>N \<ge> 2\<close> distinct keys are set in an empty cache with
  \<open>maxSize = N\<close>, the first is read, and one more key is set, exactly the second key has
  been evicted.  That is so whenever the second key is not the empty string
  (\<open>lru_evicts_second_inserted\<close>).  When it is, the scan of \<^verbatim>\<open>evictLeastRecentlyUsed\<close>
  still selects it, but the test \<^verbatim>\<open>if (lruKey)\<close> fails and no entry is evicted.  The theorem
  runs the calls for \<open>N = 2\<close> with the keys \<^verbatim>\<open>'a'\<close> and \<^verbatim>\<open>''\<close>: the cache ends with the three
  keys \<^verbatim>\<open>'a'\<close>, \<^verbatim>\<open>''\<close> and \<^verbatim>\<open>'b'\<close>; with \<^verbatim>\<open>'c'\<close> for the second key it ends with
  \<^verbatim>\<open>'a'\<close> and \<^verbatim>\<open>'b'\<close>, and on the keys of the repository's own test, with \<open>N = 3\<close>, with
  \<^verbatim>\<open>key1\<close>, \<^verbatim>\<open>key3\<close> and \<^verbatim>\<open>key4\<close>.
\<close>

theorem lru_eviction_skipped_for_empty_key:
  "map fst (cache (calls (Some 2)
      [(0, Set ''a'' ''v1'' 5000), (0, Set [] ''v2'' 5000), (1, Get ''a''), (2, Set ''b'' ''v3'' 5000)]
      new_cache)) = [''a'', [], ''b'']
   \<and> map fst (cache (calls (Some 2)
      [(0, Set ''a'' ''v1'' 5000), (0, Set ''c'' ''v2'' 5000), (1, Get ''a''), (2, Set ''b'' ''v3'' 5000)]
      new_cache)) = [''a'', ''b'']
   \<and> map fst (cache (calls (Some 3)
      [(0, Set ''key1'' ''value1'' 5000), (0, Set ''key2'' ''value2'' 5000),
       (0, Set ''key3'' ''value3'' 5000), (1, Get ''key1''), (2, Set ''key4'' ''value4'' 5000)]
      new_cache)) = [''key1'', ''key3'', ''key4'']"
  by (simp add: calls_def memory_eval num_or_def)


end
